theory Spec2Isabelle
  imports Complex_Main "HOL-Library.Char_ord" "HOL-Library.List_Lexorder" "HOL-Library.Monad_Syntax"
begin

section \<open>JavaScript values\<close>

text \<open>
  The summarizer works on parsed JSON.  A JavaScript object is an association list in
  insertion order with unique keys; \<open>JFalse\<close> and \<open>JTrue\<close> are the booleans.  Numbers
  are rationals.  Keys are assumed not to name a property of \<open>Object.prototype\<close>, and
  not to be canonical array indices (which \<open>Object.keys\<close> would list first).
\<close>

datatype json =
    JNull
  | JFalse
  | JTrue
  | JNum rat
  | JStr string
  | JArr "json list"
  | JObj "(string \<times> json) list"

text \<open>JavaScript truthiness, as the tests \<open>if (v)\<close>, \<open>!v\<close>, \<open>v ? a : b\<close> read it.\<close>

fun truthy :: "json \<Rightarrow> bool" where
  "truthy JNull = False"
| "truthy JFalse = False"
| "truthy JTrue = True"
| "truthy (JNum n) = (n \<noteq> 0)"
| "truthy (JStr s) = (s \<noteq> [])"
| "truthy (JArr xs) = True"
| "truthy (JObj kvs) = True"

text \<open>
  \<open>obj[key]\<close>: \<open>None\<close> is \<open>undefined\<close>.  Only objects carry the keys the program
  asks for; a string, number, boolean or array answers \<open>undefined\<close>.  (Reading a
  property of \<open>null\<close> throws; the callers below never do so, or say so.)
\<close>

fun getProp :: "json \<Rightarrow> string \<Rightarrow> json option" where
  "getProp (JObj kvs) k = map_of kvs k"
| "getProp _ k = None"

text \<open>
  \<open>cmn.jsonGet(obj, key, fallback)\<close> of the absent module \<open>common.mjs\<close>: the value
  under the key when it is not \<open>undefined\<close>, the fallback otherwise.  Called without
  a fallback (\<open>jsonGetReq\<close>) it throws on a missing key: \<open>None\<close>.
\<close>

definition jsonGetReq :: "json \<Rightarrow> string \<Rightarrow> json option" where
  "jsonGetReq obj k = getProp obj k"

definition jsonGet :: "json \<Rightarrow> string \<Rightarrow> json \<Rightarrow> json" where
  "jsonGet obj k fallback = (case getProp obj k of Some v \<Rightarrow> v | None \<Rightarrow> fallback)"

text \<open>\<open>cmn.jsonGetFromKpath(obj, kpath, fallback)\<close>: follows the keys in turn.\<close>

fun jsonGetFromKpath :: "json \<Rightarrow> string list \<Rightarrow> json \<Rightarrow> json" where
  "jsonGetFromKpath obj [] fallback = obj"
| "jsonGetFromKpath obj (k # ks) fallback =
     (case getProp obj k of Some v \<Rightarrow> jsonGetFromKpath v ks fallback | None \<Rightarrow> fallback)"

text \<open>\<open>cmn.jsonSet(obj, key, v)\<close>: \<open>obj[key] = v\<close>, keeping the key's place when it exists.\<close>

fun aset :: "('k \<times> 'v) list \<Rightarrow> 'k \<Rightarrow> 'v \<Rightarrow> ('k \<times> 'v) list" where
  "aset [] k v = [(k, v)]"
| "aset ((k', v') # kvs) k v = (if k' = k then (k, v) # kvs else (k', v') # aset kvs k v)"

fun jsonSet :: "json \<Rightarrow> string \<Rightarrow> json \<Rightarrow> json" where
  "jsonSet (JObj kvs) k v = JObj (aset kvs k v)"
| "jsonSet j k v = j"

text \<open>\<open>delete obj[key]\<close>.\<close>

fun jsonDelete :: "json \<Rightarrow> string \<Rightarrow> json" where
  "jsonDelete (JObj kvs) k = JObj (filter (\<lambda>kv. fst kv \<noteq> k) kvs)"
| "jsonDelete j k = j"

text \<open>
  Throwing is modelled by \<open>option\<close>: \<open>None\<close> says that the program throws (there is
  no \<open>try\<close> in the summarizer, so the exception reaches the caller), or, where a
  comment says so, that a value has a type the model leaves out.  \<open>mapM\<close>, \<open>foldM\<close>
  and \<open>filterM\<close> run a loop whose body may throw.
\<close>

fun mapM :: "('a \<Rightarrow> 'b option) \<Rightarrow> 'a list \<Rightarrow> 'b list option" where
  "mapM f [] = Some []"
| "mapM f (x # xs) =
     (case f x of None \<Rightarrow> None
      | Some y \<Rightarrow> (case mapM f xs of None \<Rightarrow> None | Some ys \<Rightarrow> Some (y # ys)))"

fun foldM :: "('s \<Rightarrow> 'a \<Rightarrow> 's option) \<Rightarrow> 'a list \<Rightarrow> 's \<Rightarrow> 's option" where
  "foldM f [] s = Some s"
| "foldM f (x # xs) s = (case f s x of None \<Rightarrow> None | Some s' \<Rightarrow> foldM f xs s')"

fun filterM :: "('a \<Rightarrow> bool option) \<Rightarrow> 'a list \<Rightarrow> 'a list option" where
  "filterM p [] = Some []"
| "filterM p (x # xs) =
     (case p x of None \<Rightarrow> None
      | Some b \<Rightarrow> (case filterM p xs of None \<Rightarrow> None
                   | Some ys \<Rightarrow> Some (if b then x # ys else ys)))"

text \<open>
  \<open>String(v)\<close>, as a template literal or a property key makes it: a string stays,
  \<open>null\<close> and the booleans are spelled out.  Numbers, arrays and objects never occur
  where the model converts; they are left out (\<open>None\<close>).
\<close>

fun toStr :: "json \<Rightarrow> string option" where
  "toStr (JStr s) = Some s"
| "toStr JNull = Some ''null''"
| "toStr JFalse = Some ''false''"
| "toStr JTrue = Some ''true''"
| "toStr _ = None"

text \<open>\<open>cmn.isArrayEmpty\<close> and \<open>cmn.isArray\<close>.\<close>

definition isArrayEmpty :: "json \<Rightarrow> bool" where
  "isArrayEmpty j = (j = JArr [])"

fun isArray :: "json \<Rightarrow> bool" where
  "isArray (JArr xs) = True"
| "isArray _ = False"

text \<open>\<open>isArray(v) ? v : [v]\<close>, as a list.\<close>

fun asArray :: "json \<Rightarrow> json list" where
  "asArray (JArr xs) = xs"
| "asArray v = [v]"

section \<open>Annotation classifier\<close>

text \<open>
  An annotation argument is an array of annotation records (objects).  The exposed
  getters return a JSON value, or throw a \<open>TypeError\<close> (\<open>None\<close>): on an empty array,
  where \<open>annotation[0]\<close> is \<open>undefined\<close>, and inside a handler that calls a string or
  array method on a value of another type.
\<close>

type_synonym annotation = "(string \<times> json) list"

definition isDisease :: "annotation \<Rightarrow> bool" where
  "isDisease annotation = (map_of annotation ''disease_ontology'' \<noteq> None)"

definition isChemical :: "annotation \<Rightarrow> bool" where
  "isChemical annotation =
     (map_of annotation ''chebi'' \<noteq> None \<or>
      map_of annotation ''chembl'' \<noteq> None \<or>
      map_of annotation ''ndc'' \<noteq> None)"

definition isGene :: "annotation \<Rightarrow> bool" where
  "isGene annotation = (map_of annotation ''symbol'' \<noteq> None)"

definition noHandler :: "annotation \<Rightarrow> json option" where
  "noHandler annotation = Some JNull"

fun parseAnnotation ::
  "annotation list \<Rightarrow> (annotation \<Rightarrow> json option) \<Rightarrow> (annotation \<Rightarrow> json option) \<Rightarrow>
   (annotation \<Rightarrow> json option) \<Rightarrow> json \<Rightarrow> json option" where
  "parseAnnotation [] diseaseHandler chemicalHandler geneHandler fallback = None"
| "parseAnnotation (annotation # rest) diseaseHandler chemicalHandler geneHandler fallback =
     (if isDisease annotation then diseaseHandler annotation
      else if isChemical annotation then chemicalHandler annotation
      else if isGene annotation then geneHandler annotation
      else Some fallback)"

text \<open>\<open>description.split('[')[0]\<close>: the text before the first bracket.\<close>

definition getDiseaseDescription :: "annotation \<Rightarrow> json option" where
  "getDiseaseDescription annotation =
     (case jsonGetFromKpath (JObj annotation) [''disease_ontology'', ''def''] JNull of
        JNull \<Rightarrow> Some JNull
      | JStr s \<Rightarrow> Some (JStr (takeWhile (\<lambda>c. c \<noteq> CHR ''['') s))
      | _ \<Rightarrow> None)"

text \<open>
  \<open>`MESH:${curie}`\<close>: a string is spliced in as it is; of any other value the template
  takes \<open>String(curie)\<close> (a number in decimal, an array as its members joined by commas).
  That conversion is the parameter \<open>str\<close>.
\<close>

definition getDiseaseMeshCuries :: "(json \<Rightarrow> string) \<Rightarrow> annotation \<Rightarrow> json option" where
  "getDiseaseMeshCuries str annotation =
     Some (JArr (concat (map
       (\<lambda>path. let curie = jsonGetFromKpath (JObj annotation) path JNull
              in if truthy curie
                 then [JStr (''MESH:'' @ (case curie of JStr s \<Rightarrow> s | v \<Rightarrow> str v))]
                 else [])
       [[''mondo'', ''xrefs'', ''mesh''], [''disease_ontology'', ''xrefs'', ''mesh'']])))"

text \<open>A \<open>Set\<close> of strings keeps the first occurrence of each member, in insertion order.\<close>

fun setAdd :: "'a list \<Rightarrow> 'a \<Rightarrow> 'a list" where
  "setAdd s x = (if x \<in> set s then s else s @ [x])"

definition setOf :: "'a list \<Rightarrow> 'a list" where
  "setOf xs = foldl setAdd [] xs"

text \<open>
  A \<open>Set\<close> of values: a string, a number, a boolean and \<open>null\<close> are held once; objects
  and arrays are compared by identity.  The objects that reach a \<open>Set\<close> here are those of
  the parsed messages, and the model keeps every member that is an object or an array.
  (Two such members are one object only where one attribute value has been aggregated
  twice; the model does not tell that from two equal values.)
\<close>

fun primitive :: "json \<Rightarrow> bool" where
  "primitive (JArr xs) = False"
| "primitive (JObj kvs) = False"
| "primitive j = True"

fun jsonSetAdd :: "json list \<Rightarrow> json \<Rightarrow> json list" where
  "jsonSetAdd s x = (if primitive x \<and> x \<in> set s then s else s @ [x])"

definition jsonSetOf :: "json list \<Rightarrow> json list" where
  "jsonSetOf xs = foldl jsonSetAdd [] xs"

text \<open>
  One turn of the loop over \<open>ndc\<close> in \<open>getChemicalNames\<close>; the state is the pair of
  name sets.  \<open>lower\<close> is \<open>String.prototype.toLowerCase\<close>.
\<close>

fun nameOf :: "(string \<Rightarrow> string) \<Rightarrow> json \<Rightarrow> string \<Rightarrow> string list option" where
  "nameOf lower JNull k = None"
| "nameOf lower entry k =
     (case jsonGet entry k JNull of
        JNull \<Rightarrow> Some []
      | JStr s \<Rightarrow> Some [lower s]
      | _ \<Rightarrow> None)"

fun chemicalNamesLoop ::
  "(string \<Rightarrow> string) \<Rightarrow> json list \<Rightarrow> string list \<times> string list \<Rightarrow>
   (string list \<times> string list) option" where
  "chemicalNamesLoop lower [] acc = Some acc"
| "chemicalNamesLoop lower (entry # ndc) (commercialNames, genericNames) =
     (case nameOf lower entry ''proprietaryname'' of
        None \<Rightarrow> None
      | Some cs \<Rightarrow>
          (case nameOf lower entry ''nonproprietaryname'' of
             None \<Rightarrow> None
           | Some gs \<Rightarrow>
               chemicalNamesLoop lower ndc
                 (foldl setAdd commercialNames cs, foldl setAdd genericNames gs)))"

definition getChemicalNames :: "(string \<Rightarrow> string) \<Rightarrow> annotation \<Rightarrow> json option" where
  "getChemicalNames lower annotation =
     (case jsonGetFromKpath (JObj annotation) [''ndc''] (JArr []) of
        JArr ndc \<Rightarrow>
          (case chemicalNamesLoop lower ndc ([], []) of
             None \<Rightarrow> None
           | Some (commercialNames, genericNames) \<Rightarrow>
               Some (JObj [(''commercial'', JArr (map JStr commercialNames)),
                           (''generic'', JArr (map JStr genericNames))]))
      | JStr s \<Rightarrow> Some (JObj [(''commercial'', JArr []), (''generic'', JArr [])])
      | _ \<Rightarrow> None)"

definition getChemicalDescription :: "annotation \<Rightarrow> json option" where
  "getChemicalDescription annotation =
     (let description = jsonGetFromKpath (JObj annotation) [''unii'', ''ncit_description''] JNull
      in if description = JNull
         then Some (jsonGetFromKpath (JObj annotation) [''chebi'', ''definition''] JNull)
         else Some description)"

text \<open>
  \<open>chebi.getHighLevelRole\<close> and \<open>chebi.getName\<close> belong to the absent module
  \<open>chebi.mjs\<close>; they are parameters.  \<open>JNull\<close> is the role lookup's miss.
\<close>

definition getChemicalChebiRoles ::
  "(json \<Rightarrow> json) \<Rightarrow> (json \<Rightarrow> json) \<Rightarrow> annotation \<Rightarrow> json option" where
  "getChemicalChebiRoles getHighLevelRole getName annotation =
     (let ids = jsonGetFromKpath (JObj annotation) [''chebi'', ''relationship'', ''has_role''] JNull
      in if ids = JNull then Some JNull
         else Some (JArr (concat (map
           (\<lambda>ident. let highLevelId = getHighLevelRole ident
                   in if highLevelId \<noteq> JNull
                      then [JObj [(''id'', highLevelId), (''name'', getName highLevelId)]]
                      else [])
           (case ids of JArr xs \<Rightarrow> xs | _ \<Rightarrow> [ids])))))"

definition getChemicalFdaApproval :: "annotation \<Rightarrow> json option" where
  "getChemicalFdaApproval annotation =
     Some (jsonGetFromKpath (JObj annotation) [''chembl'', ''max_phase''] (JNum 0))"

fun indicationOf :: "json \<Rightarrow> json list option" where
  "indicationOf JNull = None"
| "indicationOf obj = (let ident = jsonGet obj ''mesh_id'' JFalse
                       in Some (if truthy ident then [ident] else []))"

fun indicationsLoop :: "json list \<Rightarrow> json list option" where
  "indicationsLoop [] = Some []"
| "indicationsLoop (obj # objs) =
     (case indicationOf obj of
        None \<Rightarrow> None
      | Some xs \<Rightarrow> (case indicationsLoop objs of None \<Rightarrow> None | Some ys \<Rightarrow> Some (xs @ ys)))"

definition getChemicalDrugIndications :: "annotation \<Rightarrow> json option" where
  "getChemicalDrugIndications annotation =
     (case jsonGetFromKpath (JObj annotation) [''chembl'', ''drug_indications''] (JArr []) of
        JArr indicationObjs \<Rightarrow>
          (case indicationsLoop indicationObjs of None \<Rightarrow> None | Some xs \<Rightarrow> Some (JArr xs))
      | _ \<Rightarrow> None)"

definition otc :: "string \<Rightarrow> string \<Rightarrow> json" where
  "otc i n = JObj [(''id'', JStr i), (''name'', JStr n)]"

definition getChemicalOtcStatus :: "annotation \<Rightarrow> json option" where
  "getChemicalOtcStatus annotation =
     (let otcStatus = jsonGetFromKpath (JObj annotation) [''chembl'', ''availability_type''] (JNum (- 1))
      in Some (if otcStatus = JNum 2 then otc ''t'' ''Over the counter''
               else if otcStatus = JNum 1 then otc ''f'' ''Prescription only''
               else if otcStatus = JNum 0 then otc ''d'' ''Discontinued''
               else if otcStatus = JNum (- 2) then otc ''w'' ''Withdrawn''
               else otc ''o'' ''Other''))"

definition getGeneDescription :: "annotation \<Rightarrow> json option" where
  "getGeneDescription annotation = Some (jsonGet (JObj annotation) ''summary'' JNull)"

definition speciesIdToSpecies :: "json \<Rightarrow> json" where
  "speciesIdToSpecies i = (if i = JNum 9606 then JStr ''Human'' else JNull)"

definition getGeneSpecies :: "annotation \<Rightarrow> json option" where
  "getGeneSpecies annotation = Some (speciesIdToSpecies (jsonGet (JObj annotation) ''taxid'' JNull))"

definition getFdaApproval :: "annotation list \<Rightarrow> json option" where
  "getFdaApproval annotation =
     parseAnnotation annotation noHandler getChemicalFdaApproval noHandler JNull"

definition getDescription :: "annotation list \<Rightarrow> json option" where
  "getDescription annotation =
     parseAnnotation annotation getDiseaseDescription getChemicalDescription getGeneDescription JNull"

definition getChebiRoles :: "(json \<Rightarrow> json) \<Rightarrow> (json \<Rightarrow> json) \<Rightarrow> annotation list \<Rightarrow> json option" where
  "getChebiRoles getHighLevelRole getName annotation =
     parseAnnotation annotation noHandler (getChemicalChebiRoles getHighLevelRole getName) noHandler JNull"

definition getDrugIndications :: "annotation list \<Rightarrow> json option" where
  "getDrugIndications annotation =
     parseAnnotation annotation noHandler getChemicalDrugIndications noHandler JNull"

definition getCuries :: "(json \<Rightarrow> string) \<Rightarrow> annotation list \<Rightarrow> json option" where
  "getCuries str annotation =
     parseAnnotation annotation (getDiseaseMeshCuries str) noHandler noHandler JNull"

definition getNames :: "(string \<Rightarrow> string) \<Rightarrow> annotation list \<Rightarrow> json option" where
  "getNames lower annotation =
     parseAnnotation annotation noHandler (getChemicalNames lower) noHandler JNull"

definition getOtc :: "annotation list \<Rightarrow> json option" where
  "getOtc annotation =
     parseAnnotation annotation noHandler getChemicalOtcStatus noHandler JNull"

definition getSpecies :: "annotation list \<Rightarrow> json option" where
  "getSpecies annotation =
     parseAnnotation annotation noHandler noHandler getGeneSpecies JNull"

text \<open>The five keys the classifier looks at.\<close>

definition classKeys :: "string list" where
  "classKeys = [''disease_ontology'', ''chebi'', ''chembl'', ''ndc'', ''symbol'']"

definition unclassified :: "annotation \<Rightarrow> bool" where
  "unclassified annotation = list_all (\<lambda>k. map_of annotation k = None) classKeys"

section \<open>External collaborators and TRAPI input\<close>

text \<open>
  The biolink model (\<open>biolink-model.mjs\<close>), the evidence module (\<open>evidence.mjs\<close>) and the
  \<open>hash-sum\<close> package are not part of the sources at hand.  Their functions are the
  fields of an environment, and every theorem holds for every environment.  The biolink
  functions are functions of strings; handed anything else they throw.  \<open>strToNumber\<close> is
  the language's own conversion of a string to a number (\<open>None\<close> is \<open>NaN\<close>), which the
  operator \<open><\<close> applies when one side is not a string.

  Numbers are IEEE-754 doubles.  A finite double is a rational; \<open>numAdd\<close> and \<open>numDiv\<close>
  are the engine's addition and its division by a count, with their rounding and their
  overflow to an infinity.  They are fields of the environment too: the theorems hold
  whatever the rounding is.
\<close>

datatype jsnumber = Num rat | NaN | PosInfinity | NegInfinity

record env =
  sanitizeBiolinkElement :: "string \<Rightarrow> string"
  invertBiolinkPredicate :: "string \<Rightarrow> string"
  isBiolinkPredicate :: "string \<Rightarrow> bool"
  hash :: "json list \<Rightarrow> string"
  idToTypeAndUrl :: "json \<Rightarrow> json \<times> json"
  isValidId :: "json \<Rightarrow> bool"
  strToNumber :: "string \<Rightarrow> rat option"
  numAdd :: "jsnumber \<Rightarrow> jsnumber \<Rightarrow> jsnumber"
  numDiv :: "jsnumber \<Rightarrow> nat \<Rightarrow> jsnumber"

text \<open>Modelled from the spec: \<open>tagBiolink(name)\<close> is \<open>"biolink:<name>"\<close> (absent module
  \<open>biolink-model.mjs\<close>).\<close>

definition tagBiolink :: "string \<Rightarrow> string" where
  "tagBiolink name = ''biolink:'' @ name"

text \<open>
  The objects of a TRAPI knowledge graph, typed as TRAPI prescribes them.  An optional
  field is \<open>None\<close> when the key is missing.  The code reads them as JavaScript objects:
  \<open>knodeObj\<close> and \<open>kedgeObj\<close> give the object a record stands for.
\<close>

record attribute =
  attribute_type_id :: string
  attribute_value :: json

record qualifier =
  qualifier_type_id :: string
  qualifier_value :: string

record knode =
  node_name :: "string option"
  node_categories :: "string list option"
  node_attributes :: "attribute list option"

record kedge =
  edge_subject :: string
  edge_object :: string
  edge_predicate :: string
  edge_qualifiers :: "qualifier list option"
  edge_attributes :: "attribute list option"

definition attributeObj :: "attribute \<Rightarrow> json" where
  "attributeObj a =
     JObj [(''attribute_type_id'', JStr (attribute_type_id a)), (''value'', attribute_value a)]"

definition qualifierObj :: "qualifier \<Rightarrow> json" where
  "qualifierObj q =
     JObj [(''qualifier_type_id'', JStr (qualifier_type_id q)),
           (''qualifier_value'', JStr (qualifier_value q))]"

definition optField :: "string \<Rightarrow> ('a \<Rightarrow> json) \<Rightarrow> 'a option \<Rightarrow> (string \<times> json) list" where
  "optField k f v = (case v of None \<Rightarrow> [] | Some x \<Rightarrow> [(k, f x)])"

definition knodeObj :: "knode \<Rightarrow> json" where
  "knodeObj n = JObj (
     optField ''name'' JStr (node_name n) @
     optField ''categories'' (\<lambda>cs. JArr (map JStr cs)) (node_categories n) @
     optField ''attributes'' (\<lambda>as. JArr (map attributeObj as)) (node_attributes n))"

definition kedgeObj :: "kedge \<Rightarrow> json" where
  "kedgeObj e = JObj (
     [(''subject'', JStr (edge_subject e)),
      (''object'', JStr (edge_object e)),
      (''predicate'', JStr (edge_predicate e))] @
     optField ''qualifiers'' (\<lambda>qs. JArr (map qualifierObj qs)) (edge_qualifiers e) @
     optField ''attributes'' (\<lambda>as. JArr (map attributeObj as)) (edge_attributes e))"

section \<open>Qualified predicates\<close>

definition kedgeSubject :: "json \<Rightarrow> json option" where
  "kedgeSubject kedge = jsonGetReq kedge ''subject''"

definition kedgeObject :: "json \<Rightarrow> json option" where
  "kedgeObject kedge = jsonGetReq kedge ''object''"

definition kedgePredicate :: "json \<Rightarrow> json option" where
  "kedgePredicate kedge = jsonGetReq kedge ''predicate''"

text \<open>
  \<open>kedgeToQualifiers\<close>: \<open>false\<close> (\<open>Some None\<close>) when the edge has no truthy
  \<open>qualifiers\<close>, otherwise the object \<open>{sanitized type: sanitized value}\<close>, filled by
  assignment in the order of the array.  A qualifier whose two fields are not strings,
  and a \<open>qualifiers\<close> that is not an array, throw (\<open>None\<close>).
\<close>

definition qualifierPair :: "env \<Rightarrow> json \<Rightarrow> (string \<times> string) option" where
  "qualifierPair env q =
     (case getProp q ''qualifier_type_id'' of
        Some (JStr t) \<Rightarrow>
          (case getProp q ''qualifier_value'' of
             Some (JStr v) \<Rightarrow> Some (sanitizeBiolinkElement env t, sanitizeBiolinkElement env v)
           | _ \<Rightarrow> None)
      | _ \<Rightarrow> None)"

fun qualifiersLoop ::
  "env \<Rightarrow> json list \<Rightarrow> (string \<times> string) list \<Rightarrow> (string \<times> string) list option" where
  "qualifiersLoop env [] qualifiers = Some qualifiers"
| "qualifiersLoop env (q # qs) qualifiers =
     (case qualifierPair env q of
        None \<Rightarrow> None
      | Some (qualifierKey, qualifierValue) \<Rightarrow>
          qualifiersLoop env qs (aset qualifiers qualifierKey qualifierValue))"

definition kedgeToQualifiers :: "env \<Rightarrow> json \<Rightarrow> (string \<times> string) list option option" where
  "kedgeToQualifiers env kedge =
     (let kedgeQualifiers = jsonGet kedge ''qualifiers'' JFalse
      in if \<not> truthy kedgeQualifiers then Some None
         else (case kedgeQualifiers of
                 JArr qs \<Rightarrow> map_option Some (qualifiersLoop env qs [])
               | _ \<Rightarrow> None))"

definition qualifierPrefixes :: "string list" where
  "qualifierPrefixes = ['''', '''', ''of a '', ''of the '', '''']"

definition qualifierKeys :: "string list" where
  "qualifierKeys = [''direction'', ''aspect'', ''form or variant'', ''part'', ''derivative'']"

text \<open>One turn of the \<open>forEach\<close> that builds the qualifier string; \<open>None\<close> is \<open>false\<close>.\<close>

fun qualifierStep :: "string \<Rightarrow> string \<times> string option \<Rightarrow> string" where
  "qualifierStep qualifierStr (prefix, None) = qualifierStr"
| "qualifierStep qualifierStr (prefix, Some qv) =
     (if qv \<noteq> []
      then (if qualifierStr \<noteq> [] then qualifierStr @ '' '' @ prefix @ qv else qv)
      else qualifierStr)"

definition qualifiersToString :: "string \<Rightarrow> (string \<times> string) list \<Rightarrow> string" where
  "qualifiersToString ty qualifiers =
     (let qualifierValues =
            map (\<lambda>key. map_of qualifiers (ty @ '' '' @ key @ '' qualifier'')) qualifierKeys
      in foldl qualifierStep [] (zip qualifierPrefixes qualifierValues))"

definition subjectQualifiersToString :: "(string \<times> string) list \<Rightarrow> string" where
  "subjectQualifiersToString qualifiers = qualifiersToString ''subject'' qualifiers"

definition objectQualifiersToString :: "(string \<times> string) list \<Rightarrow> string" where
  "objectQualifiersToString qualifiers = qualifiersToString ''object'' qualifiers"

definition finalizeQualifiedPredicate :: "string \<Rightarrow> string \<Rightarrow> string \<Rightarrow> string" where
  "finalizeQualifiedPredicate prefix predicate suffix =
     (if prefix \<noteq> [] then prefix @ '' '' else prefix) @ predicate @
     (if suffix \<noteq> [] then '' '' @ suffix @ '' of'' else suffix)"

fun invertPredicate :: "env \<Rightarrow> json \<Rightarrow> string option" where
  "invertPredicate env (JStr p) = Some (invertBiolinkPredicate env p)"
| "invertPredicate env _ = None"

definition edgeToQualifiedPredicate :: "env \<Rightarrow> json \<Rightarrow> bool \<Rightarrow> json option" where
  "edgeToQualifiedPredicate env kedge invert =
     (case kedgePredicate kedge of
        None \<Rightarrow> None
      | Some predicate \<Rightarrow>
          (case kedgeToQualifiers env kedge of
             None \<Rightarrow> None
           | Some None \<Rightarrow>
               (if invert then map_option JStr (invertPredicate env predicate)
                else Some predicate)
           | Some (Some qualifiers) \<Rightarrow>
               (let subjectQualifierStr = subjectQualifiersToString qualifiers;
                    objectQualifierStr = objectQualifiersToString qualifiers;
                    predicate' =
                      (case map_of qualifiers ''qualified predicate'' of
                         None \<Rightarrow> predicate
                       | Some qualified_predicate \<Rightarrow>
                           if qualified_predicate \<noteq> [] then JStr qualified_predicate
                           else predicate)
                in if invert
                   then map_option
                          (\<lambda>p. JStr (finalizeQualifiedPredicate objectQualifierStr p
                                       subjectQualifierStr))
                          (invertPredicate env predicate')
                   else map_option
                          (\<lambda>p. JStr (finalizeQualifiedPredicate subjectQualifierStr p
                                       objectQualifierStr))
                          (toStr predicate'))))"

text \<open>
  The qualified predicate as the specification words it, for a typed edge.  The
  normalized qualifier object holds, for each sanitized key, the sanitized value of the
  last qualifier with that key.  A qualifier string takes the values of the keys
  \<open>direction\<close>, \<open>aspect\<close>, \<open>form or variant\<close>, \<open>part\<close>, \<open>derivative\<close> of its side, in that
  order, with the prefixes \<open>""\<close>, \<open>""\<close>, \<open>"of a "\<close>, \<open>"of the "\<close>, \<open>""\<close>, joined by spaces.
  The final string joins by single spaces the subject string when it is not empty, the
  predicate, and the object string with \<open>" of"\<close> when it is not empty.
\<close>

definition normalizedQualifier :: "env \<Rightarrow> qualifier list \<Rightarrow> string \<Rightarrow> string option" where
  "normalizedQualifier env qs =
     map_of (rev (map (\<lambda>q. (sanitizeBiolinkElement env (qualifier_type_id q),
                            sanitizeBiolinkElement env (qualifier_value q))) qs))"

definition joinWords :: "string list \<Rightarrow> string" where
  "joinWords ws = (case ws of [] \<Rightarrow> [] | w # rest \<Rightarrow> w @ concat (map (\<lambda>v. '' '' @ v) rest))"

definition qualifierSlots :: "(string \<times> string) list" where
  "qualifierSlots =
     [(''direction'', []), (''aspect'', []), (''form or variant'', ''of a ''),
      (''part'', ''of the ''), (''derivative'', [])]"

text \<open>The prefixes and values of the slots of one side that hold a non-empty value.\<close>

definition presentValues :: "env \<Rightarrow> qualifier list \<Rightarrow> string \<Rightarrow> (string \<times> string) list" where
  "presentValues env qs side =
     concat (map (\<lambda>slot.
                    case normalizedQualifier env qs (side @ '' '' @ fst slot @ '' qualifier'') of
                      None \<Rightarrow> []
                    | Some v \<Rightarrow> if v = [] then [] else [(snd slot, v)])
               qualifierSlots)"

definition specQualStr :: "env \<Rightarrow> qualifier list \<Rightarrow> string \<Rightarrow> string" where
  "specQualStr env qs side = joinWords (map (\<lambda>pv. fst pv @ snd pv) (presentValues env qs side))"

definition composePredicate :: "string \<Rightarrow> string \<Rightarrow> string \<Rightarrow> string" where
  "composePredicate subjectQualStr predicate objectQualStr =
     joinWords ((if subjectQualStr = [] then [] else [subjectQualStr]) @ [predicate] @
                (if objectQualStr = [] then [] else [objectQualStr @ '' of'']))"

definition basePredicate :: "env \<Rightarrow> kedge \<Rightarrow> qualifier list \<Rightarrow> string" where
  "basePredicate env e qs =
     (case normalizedQualifier env qs ''qualified predicate'' of
        None \<Rightarrow> edge_predicate e
      | Some qp \<Rightarrow> if qp = [] then edge_predicate e else qp)"

definition specQualifiedPredicate :: "env \<Rightarrow> kedge \<Rightarrow> bool \<Rightarrow> string" where
  "specQualifiedPredicate env e invert =
     (case edge_qualifiers e of
        None \<Rightarrow>
          (if invert then invertBiolinkPredicate env (edge_predicate e) else edge_predicate e)
      | Some qs \<Rightarrow>
          (if invert
           then composePredicate (specQualStr env qs ''object'')
                  (invertBiolinkPredicate env (basePredicate env e qs))
                  (specQualStr env qs ''subject'')
           else composePredicate (specQualStr env qs ''subject'') (basePredicate env e qs)
                  (specQualStr env qs ''object'')))"

text \<open>
  The same with the qualifier strings that the builder makes: the first value of a
  qualifier string stands without its prefix.
\<close>

definition builtQualStr :: "env \<Rightarrow> qualifier list \<Rightarrow> string \<Rightarrow> string" where
  "builtQualStr env qs side =
     (case presentValues env qs side of
        [] \<Rightarrow> []
      | pv # rest \<Rightarrow> joinWords (snd pv # map (\<lambda>pv. fst pv @ snd pv) rest))"

definition builtQualifiedPredicate :: "env \<Rightarrow> kedge \<Rightarrow> bool \<Rightarrow> string" where
  "builtQualifiedPredicate env e invert =
     (case edge_qualifiers e of
        None \<Rightarrow>
          (if invert then invertBiolinkPredicate env (edge_predicate e) else edge_predicate e)
      | Some qs \<Rightarrow>
          (if invert
           then composePredicate (builtQualStr env qs ''object'')
                  (invertBiolinkPredicate env (basePredicate env e qs))
                  (builtQualStr env qs ''subject'')
           else composePredicate (builtQualStr env qs ''subject'') (basePredicate env e qs)
                  (builtQualStr env qs ''object'')))"
section \<open>The attribute-rule language\<close>

text \<open>
  A rule maps a TRAPI object to a transform; a transform updates the summary object it
  is given (the code mutates it in place; here it returns the updated object).
\<close>

type_synonym transform = "json \<Rightarrow> json option"

definition makeMapping ::
  "string \<Rightarrow> (json \<Rightarrow> json option) \<Rightarrow> (json \<Rightarrow> json \<Rightarrow> json option) \<Rightarrow> json \<Rightarrow>
   json \<Rightarrow> transform" where
  "makeMapping key transform update fallback obj =
     (let val = jsonGet obj key JFalse
      in (\<lambda>acc. if truthy val
                then (case transform val of None \<Rightarrow> None | Some v \<Rightarrow> update v acc)
                else update fallback acc))"

text \<open>
  \<open>cmn.jsonSetFromKpath(obj, kpath, v)\<close>: sets the value at the end of the key path,
  making the objects on the way.  Every path the rules use has one key.
\<close>

fun jsonSetFromKpath :: "json \<Rightarrow> string list \<Rightarrow> json \<Rightarrow> json" where
  "jsonSetFromKpath obj [] v = obj"
| "jsonSetFromKpath obj [k] v = jsonSet obj k v"
| "jsonSetFromKpath obj (k # ks) v =
     jsonSet obj k (jsonSetFromKpath (jsonGet obj k (JObj [])) ks v)"

text \<open>
  \<open>cv.concat(v)\<close> for an array \<open>cv\<close>: an array argument is spread, any other value is
  appended.  The fields the rules aggregate into hold arrays only; a truthy \<open>cv\<close> of
  another type is left out (\<open>None\<close>).
\<close>

fun jsConcat :: "json \<Rightarrow> json \<Rightarrow> json option" where
  "jsConcat (JArr xs) v = Some (JArr (xs @ asArray v))"
| "jsConcat _ v = None"

definition aggregatePropertyUpdateWhen ::
  "json \<Rightarrow> json \<Rightarrow> string list \<Rightarrow> (json \<Rightarrow> bool) \<Rightarrow> json option" where
  "aggregatePropertyUpdateWhen v obj kpath doUpdate =
     (let cv = jsonGetFromKpath obj kpath JFalse
      in if doUpdate v
         then (let uv = JArr (asArray v)
               in if truthy cv
                  then map_option (jsonSetFromKpath obj kpath) (jsConcat cv uv)
                  else Some (jsonSetFromKpath obj kpath uv))
         else if truthy cv then Some obj
         else Some (jsonSetFromKpath obj kpath (JArr [])))"

definition renameAndTransformProperty ::
  "string \<Rightarrow> string list \<Rightarrow> (json \<Rightarrow> json option) \<Rightarrow> json \<Rightarrow> transform" where
  "renameAndTransformProperty key kpath transform =
     makeMapping key transform (\<lambda>v obj. Some (jsonSetFromKpath obj kpath v)) JNull"

definition transformProperty :: "string \<Rightarrow> (json \<Rightarrow> json option) \<Rightarrow> json \<Rightarrow> transform" where
  "transformProperty key transform = renameAndTransformProperty key [key] transform"

definition renameProperty :: "string \<Rightarrow> string list \<Rightarrow> json \<Rightarrow> transform" where
  "renameProperty key kpath = renameAndTransformProperty key kpath Some"

definition getProperty :: "string \<Rightarrow> json \<Rightarrow> transform" where
  "getProperty key = renameProperty key [key]"

definition aggregatePropertyWhen ::
  "string \<Rightarrow> string list \<Rightarrow> (json \<Rightarrow> bool) \<Rightarrow> json \<Rightarrow> transform" where
  "aggregatePropertyWhen key kpath doUpdate =
     makeMapping key Some (\<lambda>v obj. aggregatePropertyUpdateWhen v obj kpath doUpdate) (JArr [])"

definition aggregateProperty :: "string \<Rightarrow> string list \<Rightarrow> json \<Rightarrow> transform" where
  "aggregateProperty key kpath = aggregatePropertyWhen key kpath (\<lambda>v. True)"

definition attrId :: "json \<Rightarrow> json option" where
  "attrId attribute = jsonGetReq attribute ''attribute_type_id''"

definition attrValue :: "json \<Rightarrow> json option" where
  "attrValue attribute = jsonGetReq attribute ''value''"

definition areNoAttributes :: "json \<Rightarrow> bool" where
  "areNoAttributes attributes = (attributes = JNull \<or> isArrayEmpty attributes)"

text \<open>The loop of \<open>renameAndTransformAttribute\<close>: the first attribute with the id.\<close>

fun firstAttribute :: "string \<Rightarrow> (json \<Rightarrow> json option) \<Rightarrow> json list \<Rightarrow> json option" where
  "firstAttribute attributeId transform [] = Some JNull"
| "firstAttribute attributeId transform (attribute # attributes) =
     (case attrId attribute of
        None \<Rightarrow> None
      | Some i \<Rightarrow>
          if JStr attributeId = i
          then (case attrValue attribute of None \<Rightarrow> None | Some v \<Rightarrow> transform v)
          else firstAttribute attributeId transform attributes)"

definition renameAndTransformAttribute ::
  "string \<Rightarrow> string list \<Rightarrow> (json \<Rightarrow> json option) \<Rightarrow> json \<Rightarrow> transform" where
  "renameAndTransformAttribute attributeId kpath transform =
     makeMapping ''attributes''
       (\<lambda>attributes.
          if areNoAttributes attributes then Some JNull
          else (case attributes of
                  JArr as \<Rightarrow> firstAttribute attributeId transform as
                | _ \<Rightarrow> None))
       (\<lambda>v obj. Some (jsonSetFromKpath obj kpath v))
       JNull"

text \<open>The \<open>forEach\<close> of \<open>aggregateAndTransformAttributes\<close>.\<close>

fun collectAttributes ::
  "string list \<Rightarrow> (json \<Rightarrow> json list option) \<Rightarrow> json list \<Rightarrow> json list option" where
  "collectAttributes attributeIds transform [] = Some []"
| "collectAttributes attributeIds transform (attribute # attributes) =
     (case attrId attribute of
        None \<Rightarrow> None
      | Some i \<Rightarrow>
          (case (if i \<in> JStr ` set attributeIds then attrValue attribute else Some (JArr [])) of
             None \<Rightarrow> None
           | Some v \<Rightarrow>
               (case transform v of
                  None \<Rightarrow> None
                | Some xs \<Rightarrow>
                    (case collectAttributes attributeIds transform attributes of
                       None \<Rightarrow> None
                     | Some ys \<Rightarrow> Some (xs @ ys)))))"

definition aggregateAndTransformAttributes ::
  "string list \<Rightarrow> string \<Rightarrow> (json \<Rightarrow> json list option) \<Rightarrow> json \<Rightarrow> transform" where
  "aggregateAndTransformAttributes attributeIds tgtKey transform =
     makeMapping ''attributes''
       (\<lambda>attributes.
          if areNoAttributes attributes then Some (JArr [])
          else (case attributes of
                  JArr as \<Rightarrow> map_option JArr (collectAttributes attributeIds transform as)
                | _ \<Rightarrow> None))
       (\<lambda>v obj.
          let cv = jsonGet obj tgtKey JFalse
          in if truthy cv then map_option (jsonSet obj tgtKey) (jsConcat cv v)
             else Some (jsonSet obj tgtKey v))
       (JArr [])"

definition aggregateAttributes :: "string list \<Rightarrow> string \<Rightarrow> json \<Rightarrow> transform" where
  "aggregateAttributes attributeIds tgtKey =
     aggregateAndTransformAttributes attributeIds tgtKey (\<lambda>v. Some (asArray v))"

definition makeSummarizeRules :: "(json \<Rightarrow> transform) list \<Rightarrow> json \<Rightarrow> transform list" where
  "makeSummarizeRules rules obj = map (\<lambda>rule. rule obj) rules"

text \<open>\<open>evidence.split(/,|\|/)\<close>.\<close>

fun splitEvidence :: "string \<Rightarrow> string list" where
  "splitEvidence [] = [[]]"
| "splitEvidence (c # cs) =
     (if c = CHR '','' \<or> c = CHR ''|'' then [] # splitEvidence cs
      else (case splitEvidence cs of [] \<Rightarrow> [[c]] | w # ws \<Rightarrow> (c # w) # ws))"

definition evidenceToList :: "json \<Rightarrow> json list option" where
  "evidenceToList evidence =
     (case evidence of
        JArr xs \<Rightarrow> Some xs
      | JStr s \<Rightarrow> Some (map JStr (splitEvidence s))
      | _ \<Rightarrow> None)"

section \<open>Canonical node identifiers\<close>

text \<open>
  \<open>aliases.push(...attrValue(attr))\<close>: the members of an array of strings, or the
  characters of a string; any other value is not iterable (or, for an array with a
  member that is not a string, left out).
\<close>

fun asStr :: "json \<Rightarrow> string option" where
  "asStr (JStr s) = Some s"
| "asStr _ = None"

fun spreadStrings :: "json \<Rightarrow> string list option" where
  "spreadStrings (JArr xs) = mapM asStr xs"
| "spreadStrings (JStr s) = Some (map (\<lambda>c. [c]) s)"
| "spreadStrings _ = None"

definition isCurieAlias :: "json \<Rightarrow> bool option" where
  "isCurieAlias attr =
     map_option (\<lambda>attrType. attrType = JStr (tagBiolink ''same_as'') \<or>
                            attrType = JStr (tagBiolink ''xref'')) (attrId attr)"

fun aliasLoop :: "json list \<Rightarrow> string list \<Rightarrow> string list option" where
  "aliasLoop [] aliases = Some aliases"
| "aliasLoop (attr # attributes) aliases =
     (case isCurieAlias attr of
        None \<Rightarrow> None
      | Some False \<Rightarrow> aliasLoop attributes aliases
      | Some True \<Rightarrow>
          (case attrValue attr of
             None \<Rightarrow> None
           | Some v \<Rightarrow>
               (case spreadStrings v of
                  None \<Rightarrow> None
                | Some xs \<Rightarrow> aliasLoop attributes (aliases @ xs))))"

text \<open>The alias bag of one node: a \<open>Set\<close>, its members in insertion order.\<close>

definition nodeAliases :: "string \<times> knode \<Rightarrow> string list option" where
  "nodeAliases cn =
     (case jsonGet (knodeObj (snd cn)) ''attributes'' (JArr []) of
        JArr attributes \<Rightarrow> map_option setOf (aliasLoop attributes [fst cn])
      | _ \<Rightarrow> None)"

text \<open>
  \<open>cmn.setUnion\<close> (absent module \<open>common.mjs\<close>): the union of the sets, filled in the
  order of the list.
\<close>

definition setUnion :: "'a list list \<Rightarrow> 'a list" where
  "setUnion sets = setOf (concat sets)"

text \<open>
  One turn of the \<open>reduce\<close> over \<open>allCuries\<close>.  \<open>allCuries\<close> is the node keys of all
  answers followed by one more element: \<open>resultCuries.concat(iterator)\<close> appends the
  iterator object that \<open>Set.prototype.keys\<close> returns, as a single element that no bag
  has.  That element is \<open>None\<close> here.
\<close>

definition bagHas :: "string list \<Rightarrow> string option \<Rightarrow> bool" where
  "bagHas nodeSet curie = (case curie of None \<Rightarrow> False | Some c \<Rightarrow> c \<in> set nodeSet)"

definition mergeBags :: "string list list \<Rightarrow> string option \<Rightarrow> string list list" where
  "mergeBags nodeSets curie =
     (let mergeableBags = filter (\<lambda>nodeSet. bagHas nodeSet curie) nodeSets;
          unmergedBags = filter (\<lambda>nodeSet. \<not> bagHas nodeSet curie) nodeSets
      in if mergeableBags \<noteq> [] then unmergedBags @ [setUnion mergeableBags]
         else unmergedBags)"

definition assignCanonical :: "(string \<times> string) list \<Rightarrow> string list \<Rightarrow> (string \<times> string) list" where
  "assignCanonical nodeToCanonicalNode nodeSet =
     (case nodeSet of
        [] \<Rightarrow> nodeToCanonicalNode
      | canonicalNode # _ \<Rightarrow>
          foldl (\<lambda>m curie. aset m curie canonicalNode) nodeToCanonicalNode nodeSet)"

text \<open>The object \<open>nodeToCanonicalNode\<close> that the returned closure reads.\<close>

definition makeCanonicalNodeMapping ::
  "(string \<times> knode) list list \<Rightarrow> (string \<times> string) list option" where
  "makeCanonicalNodeMapping allNodes =
     (case mapM nodeAliases (concat allNodes) of
        None \<Rightarrow> None
      | Some nodeSets \<Rightarrow>
          (let resultCuries = concat (map (map fst) allNodes);
               allCuries = map Some resultCuries @ [None];
               mergedNodes = foldl mergeBags nodeSets allCuries
           in Some (foldl assignCanonical [] mergedNodes)))"

text \<open>The closure: \<open>nodeToCanonicalNode[node] || false\<close>.\<close>

definition canonicalNode :: "(string \<times> string) list \<Rightarrow> string \<Rightarrow> json" where
  "canonicalNode nodeToCanonicalNode node =
     (case map_of nodeToCanonicalNode node of
        None \<Rightarrow> JFalse
      | Some c \<Rightarrow> if c \<noteq> [] then JStr c else JFalse)"

definition canonicalOf :: "(string \<times> string) list \<Rightarrow> json \<Rightarrow> json option" where
  "canonicalOf nodeToCanonicalNode node =
     map_option (canonicalNode nodeToCanonicalNode) (asStr node)"

section \<open>Result graphs\<close>

record kgraph =
  kg_nodes :: "(string \<times> knode) list"
  kg_edges :: "(string \<times> kedge) list"

text \<open>A binding \<open>{id}\<close> is its id; \<open>normalized_score\<close> is \<open>None\<close> when absent.\<close>

record trapiResult =
  node_bindings :: "(string \<times> string list) list"
  edge_bindings :: "(string \<times> string list) list"
  normalized_score :: "rat option"

record trapiMessage =
  msg_knowledge_graph :: kgraph
  msg_results :: "trapiResult list"

record answer =
  ans_agent :: string
  ans_message :: trapiMessage

record rgraph =
  rg_nodes :: "string list"
  rg_edges :: "string list"

definition subjectKey :: string where
  "subjectKey = ''sn''"

definition objectKey :: string where
  "objectKey = ''on''"

text \<open>
  A binding that the knowledge graph does not have makes \<open>cmn.jsonGet\<close> throw (or, were
  it to answer \<open>undefined\<close>, the next property read).
\<close>

definition redgeToTrapiKedge :: "string \<Rightarrow> kgraph \<Rightarrow> json option" where
  "redgeToTrapiKedge edgeBinding kgraph = map_option kedgeObj (map_of (kg_edges kgraph) edgeBinding)"

definition rnodeToTrapiKnode :: "string \<Rightarrow> kgraph \<Rightarrow> json option" where
  "rnodeToTrapiKnode nodeBinding kgraph = map_option knodeObj (map_of (kg_nodes kgraph) nodeBinding)"

text \<open>\<open>getBindingId\<close>: \<open>false\<close> without the key; on an empty binding list
  \<open>nodeBinding[0]\<close> is \<open>undefined\<close> and reading its \<open>id\<close> throws.\<close>

definition getBindingId :: "(string \<times> string list) list \<Rightarrow> string \<Rightarrow> json option" where
  "getBindingId bindings key =
     (case map_of bindings key of
        None \<Rightarrow> Some JFalse
      | Some [] \<Rightarrow> None
      | Some (b # _) \<Rightarrow> Some (JStr b))"

definition flattenBindings :: "(string \<times> string list) list \<Rightarrow> string list" where
  "flattenBindings bindings = foldl (\<lambda>ids binding. ids @ binding) [] (map snd bindings)"

definition biolinkPredicateOf :: "env \<Rightarrow> json \<Rightarrow> bool option" where
  "biolinkPredicateOf env p = map_option (isBiolinkPredicate env) (asStr p)"

text \<open>\<open>makeRgraph\<close>: \<open>Some None\<close> is the answer \<open>false\<close>.\<close>

definition makeRgraph :: "env \<Rightarrow> string list \<Rightarrow> string list \<Rightarrow> kgraph \<Rightarrow> rgraph option option" where
  "makeRgraph env rnodes redges kgraph =
     (if \<exists>rnode \<in> set rnodes. map_of (kg_nodes kgraph) rnode = None then Some None
      else (case filterM
                   (\<lambda>redge. case redgeToTrapiKedge redge kgraph of
                              None \<Rightarrow> None
                            | Some kedge \<Rightarrow>
                                (case kedgePredicate kedge of
                                   None \<Rightarrow> None
                                 | Some p \<Rightarrow> biolinkPredicateOf env p))
                   redges of
              None \<Rightarrow> None
            | Some es \<Rightarrow> Some (Some \<lparr>rg_nodes = rnodes, rg_edges = es\<rparr>)))"

definition isRedgeInverted :: "string \<Rightarrow> string \<Rightarrow> kgraph \<Rightarrow> bool option" where
  "isRedgeInverted redge subject kgraph =
     (case redgeToTrapiKedge redge kgraph of
        None \<Rightarrow> None
      | Some kedge \<Rightarrow> map_option (\<lambda>ob. JStr subject = ob) (kedgeObject kedge))"

definition trapiResultToRgraph :: "env \<Rightarrow> trapiResult \<Rightarrow> kgraph \<Rightarrow> rgraph option option" where
  "trapiResultToRgraph env trapiResult kgraph =
     makeRgraph env (flattenBindings (node_bindings trapiResult))
       (flattenBindings (edge_bindings trapiResult)) kgraph"

definition pathToKey :: "env \<Rightarrow> json list \<Rightarrow> string" where
  "pathToKey env path = hash env path"

definition rnodeToKey :: "(string \<times> string) list \<Rightarrow> string \<Rightarrow> json" where
  "rnodeToKey nodeToCanonicalNode rnode = canonicalNode nodeToCanonicalNode rnode"

definition redgeToKey ::
  "env \<Rightarrow> (string \<times> string) list \<Rightarrow> string \<Rightarrow> kgraph \<Rightarrow> bool \<Rightarrow> string option" where
  "redgeToKey env nodeToCanonicalNode redge kgraph doInvert =
     (case redgeToTrapiKedge redge kgraph of
        None \<Rightarrow> None
      | Some kedge \<Rightarrow>
          (case Option.bind (kedgeSubject kedge) (canonicalOf nodeToCanonicalNode) of
             None \<Rightarrow> None
           | Some ksubject \<Rightarrow>
               (case edgeToQualifiedPredicate env kedge doInvert of
                  None \<Rightarrow> None
                | Some predicate \<Rightarrow>
                    (case Option.bind (kedgeObject kedge) (canonicalOf nodeToCanonicalNode) of
                       None \<Rightarrow> None
                     | Some kobject \<Rightarrow>
                         if doInvert then Some (pathToKey env [kobject, predicate, ksubject])
                         else Some (pathToKey env [ksubject, predicate, kobject])))))"

text \<open>
  \<open>makeRedgeToEdgeId\<close> and \<open>makeRnodeToOutEdges\<close>: the objects they fill.  (The second
  object also carries its own \<open>update\<close> method; a node called \<open>update\<close> is left out.)
\<close>

definition makeRedgeToEdgeId :: "rgraph \<Rightarrow> kgraph \<Rightarrow> (string \<times> string \<times> string) list option" where
  "makeRedgeToEdgeId rgraph kgraph =
     foldM (\<lambda>redgeToEdgeId redge.
              case redgeToTrapiKedge redge kgraph of
                None \<Rightarrow> None
              | Some kedge \<Rightarrow>
                  (case Option.bind (kedgeSubject kedge) asStr of
                     None \<Rightarrow> None
                   | Some s \<Rightarrow>
                       (case Option.bind (kedgeObject kedge) asStr of
                          None \<Rightarrow> None
                        | Some ob \<Rightarrow> Some (aset redgeToEdgeId redge (s, ob)))))
       (rg_edges rgraph) []"

definition outEdgesOf :: "(string \<times> (string \<times> string) list) list \<Rightarrow> string \<Rightarrow> (string \<times> string) list" where
  "outEdgesOf rnodeToOutEdges rnode =
     (case map_of rnodeToOutEdges rnode of None \<Rightarrow> [] | Some outEdges \<Rightarrow> outEdges)"

definition updateOutEdges ::
  "(string \<times> (string \<times> string) list) list \<Rightarrow> string \<Rightarrow> string \<times> string \<Rightarrow>
   (string \<times> (string \<times> string) list) list" where
  "updateOutEdges rnodeToOutEdges rnode val =
     aset rnodeToOutEdges rnode (outEdgesOf rnodeToOutEdges rnode @ [val])"

definition makeRnodeToOutEdges ::
  "rgraph \<Rightarrow> kgraph \<Rightarrow> (string \<times> (string \<times> string) list) list option" where
  "makeRnodeToOutEdges rgraph kgraph =
     (case makeRedgeToEdgeId rgraph kgraph of
        None \<Rightarrow> None
      | Some redgeToEdgeId \<Rightarrow>
          foldM (\<lambda>rnodeToOutEdges redge.
                   case map_of redgeToEdgeId redge of
                     None \<Rightarrow> None
                   | Some (s, ob) \<Rightarrow>
                       Some (updateOutEdges (updateOutEdges rnodeToOutEdges s (redge, ob))
                               ob (redge, s)))
            (rg_edges rgraph) [])"

section \<open>The path finder\<close>

text \<open>
  \<open>rgraphFold\<close>: the loop over a stack of work.  The stack is a list with its top in
  front: \<open>pop\<close> takes the head, and \<open>push(...paths.first)\<close> leaves the last of the new
  elements on top.  The loop need not end for every \<open>proc\<close>; not returning is \<open>None\<close>.
\<close>

partial_function (option) rgraphFold ::
  "('a \<Rightarrow> 'a list \<times> 'b list) \<Rightarrow> 'a list \<Rightarrow> 'b list \<Rightarrow> 'b list option" where
  "rgraphFold proc objLeft res =
     (case objLeft of
        [] \<Rightarrow> Some res
      | obj # rest \<Rightarrow>
          (let paths = proc obj
           in rgraphFold proc (rev (fst paths) @ rest) (res @ snd paths)))"

text \<open>
  The step function that \<open>trapiResultToSummaryFragment\<close> hands to \<open>rgraphFold\<close>.  A
  path is the array \<open>[node, edge, node, ...]\<close> of binding ids; it is never empty.
\<close>

definition pathStep ::
  "(string \<times> string) list \<Rightarrow> (string \<times> (string \<times> string) list) list \<Rightarrow> string \<Rightarrow> nat \<Rightarrow>
   string list \<Rightarrow> string list list \<times> string list list" where
  "pathStep nodeToCanonicalNode rnodeToOutEdges disease maxPathLength path =
     (if maxPathLength < length path then ([], [])
      else if path \<noteq> [] \<and> last path = disease then ([], [path])
      else (map (\<lambda>edge. path @ [fst edge, snd edge])
              (filter (\<lambda>edge. snd edge \<notin> set path \<and>
                              truthy (canonicalNode nodeToCanonicalNode (snd edge)))
                 (outEdgesOf rnodeToOutEdges (last path))),
            []))"

definition findPaths ::
  "(string \<times> string) list \<Rightarrow> (string \<times> (string \<times> string) list) list \<Rightarrow> string \<Rightarrow> string \<Rightarrow>
   nat \<Rightarrow> string list list option" where
  "findPaths nodeToCanonicalNode rnodeToOutEdges drug disease maxHops =
     (let maxPathLength = (2 * maxHops) + 1
      in rgraphFold (pathStep nodeToCanonicalNode rnodeToOutEdges disease maxPathLength)
           [[drug]] [])"

section \<open>Summary fragments\<close>

text \<open>
  A fragment's \<open>scores\<close> object holds one number per key when the fragment is that of one
  result, and an array per key in the fragment of an agent.  An array member is \<open>None\<close>
  when it is \<open>undefined\<close>.
\<close>

record 's summaryFragment =
  f_paths :: "json list list"
  f_nodes :: "(json \<times> transform list) list"
  f_edges :: "(string \<times> transform list) list"
  f_scores :: "(string \<times> 's) list"

definition makeSummaryFragment ::
  "json list list \<Rightarrow> (json \<times> transform list) list \<Rightarrow> (string \<times> transform list) list \<Rightarrow>
   (string \<times> 's) list \<Rightarrow> 's summaryFragment" where
  "makeSummaryFragment paths nodes edges scores =
     \<lparr>f_paths = paths, f_nodes = nodes, f_edges = edges, f_scores = scores\<rparr>"

definition emptySummaryFragment :: "'s summaryFragment" where
  "emptySummaryFragment = makeSummaryFragment [] [] [] []"

record condensedSummary =
  cs_agent :: string
  cs_fragment :: "rat option list summaryFragment"

definition makeCondensedSummary :: "string \<Rightarrow> rat option list summaryFragment \<Rightarrow> condensedSummary" where
  "makeCondensedSummary agent summaryFragment = \<lparr>cs_agent = agent, cs_fragment = summaryFragment\<rparr>"

text \<open>
  \<open>mergeSummaryFragments\<close>.  \<open>Object.keys(f2.scores)[0]\<close> is \<open>undefined\<close> for an empty
  fragment; as a property key that is the string \<open>undefined\<close>, and the value pushed is
  \<open>undefined\<close> too.
\<close>

definition mergeSummaryFragments ::
  "rat option list summaryFragment \<Rightarrow> rat summaryFragment \<Rightarrow> rat option list summaryFragment" where
  "mergeSummaryFragments f1 f2 =
     (let newScoreKey = (case f_scores f2 of [] \<Rightarrow> ''undefined'' | kv # _ \<Rightarrow> fst kv);
          newScore = (case f_scores f2 of [] \<Rightarrow> None | kv # _ \<Rightarrow> Some (snd kv));
          currentScores = (case map_of (f_scores f1) newScoreKey of None \<Rightarrow> [] | Some xs \<Rightarrow> xs)
      in \<lparr>f_paths = f_paths f1 @ f_paths f2,
          f_nodes = f_nodes f1 @ f_nodes f2,
          f_edges = f_edges f1 @ f_edges f2,
          f_scores = aset (f_scores f1) newScoreKey (currentScores @ [newScore])\<rparr>)"

text \<open>The two rule sets of \<open>creativeAnswersToSummary\<close>.\<close>

definition sanitizeJ :: "env \<Rightarrow> json \<Rightarrow> json option" where
  "sanitizeJ env v = map_option (\<lambda>s. JStr (sanitizeBiolinkElement env s)) (asStr v)"

definition nodeRules :: "json \<Rightarrow> transform list" where
  "nodeRules = makeSummarizeRules
     [aggregateProperty ''name'' [''names''],
      aggregateProperty ''categories'' [''types''],
      aggregateAttributes [tagBiolink ''xref''] ''curies'',
      renameAndTransformAttribute (tagBiolink ''highest_FDA_approval_status'') [''fda_info'']
        (\<lambda>fdaDescription. Some (JObj [(''highest_fda_approval_status'', fdaDescription)])),
      aggregateAttributes [tagBiolink ''description''] ''descriptions'',
      aggregateAttributes [tagBiolink ''synonym''] ''synonyms'',
      aggregateAttributes [tagBiolink ''same_as''] ''same_as'',
      aggregateAttributes [tagBiolink ''IriType''] ''iri_types'']"

definition edgeRules :: "env \<Rightarrow> (string \<times> string) list \<Rightarrow> json \<Rightarrow> transform list" where
  "edgeRules env nodeToCanonicalNode = makeSummarizeRules
     [transformProperty ''predicate'' (sanitizeJ env),
      getProperty ''qualifiers'',
      transformProperty ''subject'' (canonicalOf nodeToCanonicalNode),
      transformProperty ''object'' (canonicalOf nodeToCanonicalNode),
      aggregateAttributes [tagBiolink ''IriType''] ''iri_types'',
      aggregateAttributes [''bts:sentence''] ''snippets'',
      aggregateAndTransformAttributes
        [tagBiolink ''supporting_document'', tagBiolink ''Publication'',
         tagBiolink ''publications'']
        ''publications'' evidenceToList]"

text \<open>\<open>normalizePaths\<close>, for one path: nodes become canonical keys, edges edge keys.\<close>

definition edgeKeyOnPath ::
  "env \<Rightarrow> (string \<times> string) list \<Rightarrow> kgraph \<Rightarrow> string \<Rightarrow> string \<Rightarrow> string option" where
  "edgeKeyOnPath env nodeToCanonicalNode kgraph e ob =
     (case isRedgeInverted e ob kgraph of
        None \<Rightarrow> None
      | Some inverted \<Rightarrow> redgeToKey env nodeToCanonicalNode e kgraph inverted)"

fun normalizePath ::
  "env \<Rightarrow> (string \<times> string) list \<Rightarrow> kgraph \<Rightarrow> string list \<Rightarrow> json list option" where
  "normalizePath env nodeToCanonicalNode kgraph [] = Some []"
| "normalizePath env nodeToCanonicalNode kgraph [node] =
     Some [rnodeToKey nodeToCanonicalNode node]"
| "normalizePath env nodeToCanonicalNode kgraph (node # edge # rest) =
     (case edgeKeyOnPath env nodeToCanonicalNode kgraph edge node of
        None \<Rightarrow> None
      | Some k \<Rightarrow>
          (case (if rest = [] then Some [rnodeToKey nodeToCanonicalNode edge]
                 else normalizePath env nodeToCanonicalNode kgraph rest) of
             None \<Rightarrow> None
           | Some ns \<Rightarrow> Some (rnodeToKey nodeToCanonicalNode node # JStr k # ns)))"

definition summarizeRnode ::
  "(string \<times> string) list \<Rightarrow> kgraph \<Rightarrow> string \<Rightarrow> (json \<times> transform list) option" where
  "summarizeRnode nodeToCanonicalNode kgraph rnode =
     map_option (\<lambda>knode. (rnodeToKey nodeToCanonicalNode rnode, nodeRules knode))
       (rnodeToTrapiKnode rnode kgraph)"

definition summarizeRedge ::
  "env \<Rightarrow> (string \<times> string) list \<Rightarrow> kgraph \<Rightarrow> string \<Rightarrow> (string \<times> transform list) option" where
  "summarizeRedge env nodeToCanonicalNode kgraph redge =
     (case redgeToKey env nodeToCanonicalNode redge kgraph False of
        None \<Rightarrow> None
      | Some k \<Rightarrow>
          map_option (\<lambda>kedge. (k, edgeRules env nodeToCanonicalNode kedge))
            (redgeToTrapiKedge redge kgraph))"

text \<open>The paths of one result: \<open>Some None\<close> when the result yields the empty fragment.\<close>

definition resultPaths ::
  "env \<Rightarrow> (string \<times> string) list \<Rightarrow> nat \<Rightarrow> trapiResult \<Rightarrow> kgraph \<Rightarrow>
   (rgraph \<times> string \<times> string list list) option option" where
  "resultPaths env nodeToCanonicalNode maxHops trapiResult kgraph =
     (case trapiResultToRgraph env trapiResult kgraph of
        None \<Rightarrow> None
      | Some None \<Rightarrow> Some None
      | Some (Some rgraph) \<Rightarrow>
          (case getBindingId (node_bindings trapiResult) subjectKey of
             None \<Rightarrow> None
           | Some drug \<Rightarrow>
               (case getBindingId (node_bindings trapiResult) objectKey of
                  None \<Rightarrow> None
                | Some disease \<Rightarrow>
                    if \<not> truthy drug \<or> \<not> truthy disease then Some None
                    else (case (asStr drug, asStr disease) of
                            (Some dr, Some di) \<Rightarrow>
                              (case makeRnodeToOutEdges rgraph kgraph of
                                 None \<Rightarrow> None
                               | Some rnodeToOutEdges \<Rightarrow>
                                   map_option (\<lambda>ps. Some (rgraph, dr, ps))
                                     (findPaths nodeToCanonicalNode rnodeToOutEdges dr di maxHops))
                          | _ \<Rightarrow> None))))"

definition trapiResultToSummaryFragment ::
  "env \<Rightarrow> (string \<times> string) list \<Rightarrow> nat \<Rightarrow> trapiResult \<Rightarrow> kgraph \<Rightarrow>
   rat summaryFragment option" where
  "trapiResultToSummaryFragment env nodeToCanonicalNode maxHops trapiResult kgraph =
     (case resultPaths env nodeToCanonicalNode maxHops trapiResult kgraph of
        None \<Rightarrow> None
      | Some None \<Rightarrow> Some emptySummaryFragment
      | Some (Some (rgraph, drug, rgraphPaths)) \<Rightarrow>
          (case toStr (rnodeToKey nodeToCanonicalNode drug) of
             None \<Rightarrow> None
           | Some resultDrugKey \<Rightarrow>
               (let resultScore = (case normalized_score trapiResult of None \<Rightarrow> 0 | Some x \<Rightarrow> x);
                    fragmentScore = [(resultDrugKey, resultScore)]
                in (case mapM (normalizePath env nodeToCanonicalNode kgraph) rgraphPaths of
                      None \<Rightarrow> None
                    | Some paths \<Rightarrow>
                        (case mapM (summarizeRnode nodeToCanonicalNode kgraph) (rg_nodes rgraph) of
                           None \<Rightarrow> None
                         | Some nodes \<Rightarrow>
                             (case mapM (summarizeRedge env nodeToCanonicalNode kgraph)
                                     (rg_edges rgraph) of
                                None \<Rightarrow> None
                              | Some edges \<Rightarrow>
                                  Some (makeSummaryFragment paths nodes edges fragmentScore)))))))"

definition creativeAnswersToCondensedSummaries ::
  "env \<Rightarrow> (string \<times> string) list \<Rightarrow> nat \<Rightarrow> answer list \<Rightarrow> condensedSummary list option" where
  "creativeAnswersToCondensedSummaries env nodeToCanonicalNode maxHops answers =
     mapM (\<lambda>answer.
             let reportingAgent = ans_agent answer;
                 trapiMessage = ans_message answer;
                 trapiResults = msg_results trapiMessage;
                 kgraph = msg_knowledge_graph trapiMessage
             in map_option (makeCondensedSummary reportingAgent)
                  (foldM (\<lambda>summaryFragment result.
                            map_option (mergeSummaryFragments summaryFragment)
                              (trapiResultToSummaryFragment env nodeToCanonicalNode maxHops
                                 result kgraph))
                     trapiResults emptySummaryFragment))
       answers"

section \<open>The summary merger\<close>

record summaryPath =
  sp_subgraph :: "json list"
  sp_aras :: "string list"

record summaryResult =
  r_subject :: json
  r_drug_name :: json
  r_paths :: "string list"
  r_object :: json
  r_score :: jsnumber

record summary =
  s_meta :: "string \<times> string list"
  s_results :: "summaryResult list"
  s_paths :: "(string \<times> summaryPath) list"
  s_nodes :: "(string \<times> json) list"
  s_edges :: "(string \<times> json) list"
  s_publications :: "(string \<times> json) list"

definition makeMetadataObject :: "string \<Rightarrow> string list \<Rightarrow> string \<times> string list" where
  "makeMetadataObject qid agents = (qid, agents)"

text \<open>
  \<open>path[0]\<close> as the key of the \<open>results\<close> object: the first element as a string, the
  string \<open>undefined\<close> for an empty path.
\<close>

definition pathDrugKey :: "json list \<Rightarrow> string option" where
  "pathDrugKey path = (case path of [] \<Rightarrow> Some ''undefined'' | drug # _ \<Rightarrow> toStr drug)"

definition fragmentPathsToResultsAndPaths ::
  "env \<Rightarrow> json list list \<Rightarrow> ((string \<times> string) list \<times> (string \<times> json list) list) option" where
  "fragmentPathsToResultsAndPaths env fragmentPaths =
     map_option (\<lambda>results. (results, map (\<lambda>path. (pathToKey env path, path)) fragmentPaths))
       (mapM (\<lambda>path. map_option (\<lambda>drug. (drug, pathToKey env path)) (pathDrugKey path))
          fragmentPaths)"

definition getOr :: "('k \<times> 'v) list \<Rightarrow> 'k \<Rightarrow> 'v \<Rightarrow> 'v" where
  "getOr m k d = (case map_of m k of None \<Rightarrow> d | Some v \<Rightarrow> v)"

definition extendSummaryResults ::
  "(string \<times> string list) list \<Rightarrow> (string \<times> string) list \<Rightarrow> (string \<times> string list) list" where
  "extendSummaryResults results newResults =
     foldl (\<lambda>results result.
              aset results (fst result) (getOr results (fst result) [] @ [snd result]))
       results newResults"

definition extendSummaryPaths ::
  "(string \<times> summaryPath) list \<Rightarrow> (string \<times> json list) list \<Rightarrow> string \<Rightarrow>
   (string \<times> summaryPath) list" where
  "extendSummaryPaths paths newPaths agent =
     foldl (\<lambda>paths path.
              case map_of paths (fst path) of
                Some existingPath \<Rightarrow>
                  aset paths (fst path) (existingPath\<lparr>sp_aras := sp_aras existingPath @ [agent]\<rparr>)
              | None \<Rightarrow>
                  aset paths (fst path) \<lparr>sp_subgraph = snd path, sp_aras = [agent]\<rparr>)
       paths newPaths"

text \<open>\<open>obj.aras.push(agent)\<close>.\<close>

definition pushAra :: "string \<Rightarrow> json \<Rightarrow> json option" where
  "pushAra agent obj =
     (case getProp obj ''aras'' of
        Some (JArr aras) \<Rightarrow> Some (jsonSet obj ''aras'' (JArr (aras @ [JStr agent])))
      | _ \<Rightarrow> None)"

definition applyTransforms :: "string \<Rightarrow> transform list \<Rightarrow> json \<Rightarrow> json option" where
  "applyTransforms agent transforms obj =
     foldM (\<lambda>obj transform.
              case transform obj of None \<Rightarrow> None | Some obj' \<Rightarrow> pushAra agent obj')
       transforms obj"

definition extendSummaryObj ::
  "(string \<times> json) list \<Rightarrow> (string \<times> transform list) list \<Rightarrow> string \<Rightarrow>
   (string \<times> json) list option" where
  "extendSummaryObj objs updates agent =
     foldM (\<lambda>objs update.
              map_option (aset objs (fst update))
                (applyTransforms agent (snd update)
                   (getOr objs (fst update) (JObj [(''aras'', JArr [])]))))
       updates objs"

text \<open>A node update's key is a canonical node (or \<open>false\<close>); as a property key it is a string.\<close>

definition extendSummaryNodes ::
  "(string \<times> json) list \<Rightarrow> (json \<times> transform list) list \<Rightarrow> string \<Rightarrow>
   (string \<times> json) list option" where
  "extendSummaryNodes nodes nodeUpdates agent =
     (case mapM (\<lambda>update. map_option (\<lambda>k. (k, snd update)) (toStr (fst update))) nodeUpdates of
        None \<Rightarrow> None
      | Some updates \<Rightarrow> extendSummaryObj nodes updates agent)"

definition extendSummaryEdges ::
  "(string \<times> json) list \<Rightarrow> (string \<times> transform list) list \<Rightarrow> string \<Rightarrow>
   (string \<times> json) list option" where
  "extendSummaryEdges edges edgeUpdates agent = extendSummaryObj edges edgeUpdates agent"

definition extendSummaryScores ::
  "(string \<times> rat option list) list \<Rightarrow> (string \<times> rat option list) list \<Rightarrow>
   (string \<times> rat option list) list" where
  "extendSummaryScores scores newScores =
     foldl (\<lambda>scores resultNode.
              aset scores resultNode (getOr scores resultNode [] @ getOr newScores resultNode []))
       scores (map fst newScores)"

text \<open>
  \<open>objRemoveDuplicates\<close>: every array of the object becomes \<open>[...new Set(v)]\<close>.
\<close>

fun objRemoveDuplicates :: "json \<Rightarrow> json" where
  "objRemoveDuplicates (JObj kvs) =
     JObj (map (\<lambda>kv. (fst kv, case snd kv of JArr xs \<Rightarrow> JArr (jsonSetOf xs) | v \<Rightarrow> v)) kvs)"
| "objRemoveDuplicates j = j"

text \<open>\<open>cmn.jsonUpdate(edge, 'publications', ps => ps.filter(isValidId))\<close>.\<close>

definition filterPublications :: "env \<Rightarrow> json \<Rightarrow> json option" where
  "filterPublications env edge =
     (case getProp edge ''publications'' of
        Some (JArr publications) \<Rightarrow>
          Some (jsonSet edge ''publications'' (JArr (filter (isValidId env) publications)))
      | _ \<Rightarrow> None)"

definition cleanEdges :: "env \<Rightarrow> (string \<times> json) list \<Rightarrow> (string \<times> json) list option" where
  "cleanEdges env edges =
     mapM (\<lambda>kv. map_option (\<lambda>edge. (fst kv, edge))
                  (filterPublications env (objRemoveDuplicates (snd kv))))
       edges"

text \<open>The loop over \<open>snippets\<close> in \<open>extendSummaryPublications\<close>.\<close>

fun findSnippet :: "string \<Rightarrow> json list \<Rightarrow> json option" where
  "findSnippet ident [] = Some JFalse"
| "findSnippet ident (snippet # snippets) =
     (if snippet = JNull then None
      else (let publicationObj = jsonGet snippet ident JFalse
            in if truthy publicationObj then Some publicationObj
               else findSnippet ident snippets))"

definition makePublicationObject :: "json \<Rightarrow> json \<Rightarrow> json \<Rightarrow> json \<Rightarrow> json" where
  "makePublicationObject ty url snippet pubdate =
     JObj [(''type'', ty), (''url'', url), (''snippet'', snippet), (''pubdate'', pubdate)]"

definition publicationFor :: "env \<Rightarrow> json \<Rightarrow> json \<Rightarrow> (string \<times> json) option" where
  "publicationFor env snippets ident =
     (case toStr ident of
        None \<Rightarrow> None
      | Some k \<Rightarrow>
          (let tu = idToTypeAndUrl env ident
           in (case snippets of
                 JArr ss \<Rightarrow>
                   (case findSnippet k ss of
                      None \<Rightarrow> None
                    | Some publicationObj \<Rightarrow>
                        if truthy publicationObj
                        then Some (k, makePublicationObject (fst tu) (snd tu)
                                        (jsonGet publicationObj ''sentence'' JNull)
                                        (jsonGet publicationObj ''publication date'' JNull))
                        else Some (k, makePublicationObject (fst tu) (snd tu) JNull JNull))
               | _ \<Rightarrow> None)))"

definition extendSummaryPublications ::
  "env \<Rightarrow> (string \<times> json) list \<Rightarrow> json \<Rightarrow> (string \<times> json) list option" where
  "extendSummaryPublications env publications edge =
     (case jsonGetReq edge ''snippets'' of
        None \<Rightarrow> None
      | Some snippets \<Rightarrow>
          (case jsonGet edge ''publications'' (JArr []) of
             JArr publicationIds \<Rightarrow>
               foldM (\<lambda>publications ident.
                        map_option (\<lambda>kv. aset publications (fst kv) (snd kv))
                          (publicationFor env snippets ident))
                 publicationIds publications
           | _ \<Rightarrow> None))"

text \<open>
  \<open>addInverseEdge\<close>: the key and the object it installs.  \<open>cmn.deepCopy\<close> copies the
  object; a value is its own copy.
\<close>

definition inverseEdge :: "env \<Rightarrow> json \<Rightarrow> (string \<times> json) option" where
  "inverseEdge env edge =
     (case jsonGetReq edge ''predicate'' of
        None \<Rightarrow> None
      | Some edgePredicate \<Rightarrow>
          (case edgeToQualifiedPredicate env edge True of
             None \<Rightarrow> None
           | Some invertedPredicate \<Rightarrow>
               (case jsonGetReq edge ''subject'' of
                  None \<Rightarrow> None
                | Some subject \<Rightarrow>
                    (case jsonGetReq edge ''object'' of
                       None \<Rightarrow> None
                     | Some object \<Rightarrow>
                         Some (pathToKey env [object, invertedPredicate, subject],
                               jsonDelete
                                 (jsonSet (jsonSet (jsonSet edge ''subject'' object)
                                    ''object'' subject) ''predicate'' invertedPredicate)
                                 ''qualifiers'')))))"

text \<open>
  One turn of the loop of \<open>edgesToEdgesAndPublications\<close>.  The loop runs over the edge
  objects that the map held when it started.  \<open>edges[invertedEdgeKey] = invertedEdge\<close> may
  put the new object in the place of one of them; what the loop does to that object
  afterwards no longer shows in the map.  The third component of the state lists the
  keys written so: an edge whose key is among them is detached.
\<close>

definition spliceEdge ::
  "env \<Rightarrow> (string \<times> json) list \<times> (string \<times> json) list \<times> string list \<Rightarrow> string \<times> json \<Rightarrow>
   ((string \<times> json) list \<times> (string \<times> json) list \<times> string list) option" where
  "spliceEdge env st kv =
     (case st of (edges, publications, detached) \<Rightarrow>
        (case extendSummaryPublications env publications (snd kv) of
           None \<Rightarrow> None
         | Some publications' \<Rightarrow>
             (let edge = jsonDelete (snd kv) ''snippets''
              in (case inverseEdge env edge of
                    None \<Rightarrow> None
                  | Some inverted \<Rightarrow>
                      (case edgeToQualifiedPredicate env edge False of
                         None \<Rightarrow> None
                       | Some predicate \<Rightarrow>
                           (let edges' = aset edges (fst inverted) (snd inverted);
                                detached' = fst inverted # detached;
                                edge' = jsonDelete (jsonSet edge ''predicate'' predicate)
                                          ''qualifiers''
                            in Some (if fst kv \<in> set detached' then edges'
                                     else aset edges' (fst kv) edge',
                                     publications', detached')))))))"

definition edgesToEdgesAndPublications ::
  "env \<Rightarrow> (string \<times> json) list \<Rightarrow> ((string \<times> json) list \<times> (string \<times> json) list) option" where
  "edgesToEdgesAndPublications env edges =
     map_option (\<lambda>st. (fst st, fst (snd st))) (foldM (spliceEdge env) edges (edges, [], []))"

text \<open>\<open>pushIfEmpty\<close>, and the loop over the nodes that uses it.\<close>

definition pushIfEmpty :: "json \<Rightarrow> json \<Rightarrow> json" where
  "pushIfEmpty arr val = (if isArrayEmpty arr then JArr [val] else arr)"

definition finishNode :: "string \<Rightarrow> json \<Rightarrow> json option" where
  "finishNode k node0 =
     (let node = objRemoveDuplicates node0
      in (case jsonGetReq node ''names'' of
            None \<Rightarrow> None
          | Some nodeNames \<Rightarrow>
              (let node' = jsonSet node ''names'' (pushIfEmpty nodeNames (JStr k))
               in (case jsonGetReq node' ''curies'' of
                     None \<Rightarrow> None
                   | Some nodeCuries \<Rightarrow>
                       Some (jsonSet node' ''curies'' (pushIfEmpty nodeCuries (JStr k)))))))"

definition finishNodes :: "(string \<times> json) list \<Rightarrow> (string \<times> json) list option" where
  "finishNodes nodes = mapM (\<lambda>kv. map_option (\<lambda>node. (fst kv, node)) (finishNode (fst kv) (snd kv))) nodes"

text \<open>
  The operator \<open><\<close> on two elements of a path: strings compare by their characters,
  anything else through numbers.
\<close>

fun toNumber :: "env \<Rightarrow> json \<Rightarrow> rat option" where
  "toNumber env JNull = Some 0"
| "toNumber env JFalse = Some 0"
| "toNumber env JTrue = Some 1"
| "toNumber env (JNum n) = Some n"
| "toNumber env (JStr s) = strToNumber env s"
| "toNumber env _ = None"

fun jsLess :: "env \<Rightarrow> json \<Rightarrow> json \<Rightarrow> bool" where
  "jsLess env (JStr a) (JStr b) = (a < b)"
| "jsLess env a b =
     (case (toNumber env a, toNumber env b) of (Some x, Some y) \<Rightarrow> x < y | _ \<Rightarrow> False)"

fun evens :: "'a list \<Rightarrow> 'a list" where
  "evens [] = []"
| "evens [x] = [x]"
| "evens (x # y # xs) = x # evens xs"

fun compareEvens :: "env \<Rightarrow> (json \<times> json) list \<Rightarrow> int" where
  "compareEvens env [] = 0"
| "compareEvens env (ab # rest) =
     (if jsLess env (fst ab) (snd ab) then - 1
      else if jsLess env (snd ab) (fst ab) then 1
      else compareEvens env rest)"

text \<open>\<open>isPathLessThan\<close>, on the two subgraphs that \<open>getPathFromPid\<close> fetched.\<close>

definition isPathLessThan :: "env \<Rightarrow> json list \<Rightarrow> json list \<Rightarrow> int" where
  "isPathLessThan env path1 path2 =
     (let p1Len = length path1; p2Len = length path2
      in if p1Len = p2Len then compareEvens env (zip (evens path1) (evens path2))
         else if p1Len < p2Len then - 1
         else 1)"

text \<open>
  \<open>Array.prototype.sort\<close> with a comparator is stable and, for a consistent comparator,
  returns the one sorted arrangement that keeps equal elements in their order.  Insertion
  from the right computes it.
\<close>

fun insertBy :: "('a \<Rightarrow> 'a \<Rightarrow> int) \<Rightarrow> 'a \<Rightarrow> 'a list \<Rightarrow> 'a list" where
  "insertBy cmp x [] = [x]"
| "insertBy cmp x (y # ys) = (if cmp x y \<le> 0 then x # y # ys else y # insertBy cmp x ys)"

definition sortBy :: "('a \<Rightarrow> 'a \<Rightarrow> int) \<Rightarrow> 'a list \<Rightarrow> 'a list" where
  "sortBy cmp xs = foldr (insertBy cmp) xs []"

definition getPathFromPid :: "(string \<times> summaryPath) list \<Rightarrow> string \<Rightarrow> json list option" where
  "getPathFromPid paths pid = map_option sp_subgraph (map_of paths pid)"

text \<open>\<open>ps.sort(isPathLessThan)\<close>; the comparator fetches the subgraph of each path key.\<close>

definition sortPaths :: "env \<Rightarrow> (string \<times> summaryPath) list \<Rightarrow> string list \<Rightarrow> string list option" where
  "sortPaths env paths ps =
     map_option (\<lambda>keyed. map fst (sortBy (\<lambda>a b. isPathLessThan env (snd a) (snd b)) keyed))
       (mapM (\<lambda>pid. map_option (\<lambda>path. (pid, path)) (getPathFromPid paths pid)) ps)"

text \<open>
  \<open>drugScores.reduce((a, b) => a + b) / drugScores.length\<close>: \<open>reduce\<close> throws on an empty
  array and returns the only member of an array of one.  A member that is \<open>undefined\<close>
  is \<open>NaN\<close> as a number.
\<close>

definition scoreNumber :: "rat option \<Rightarrow> jsnumber" where
  "scoreNumber x = (case x of None \<Rightarrow> NaN | Some q \<Rightarrow> Num q)"

definition meanScore :: "env \<Rightarrow> rat option list \<Rightarrow> jsnumber option" where
  "meanScore env drugScores =
     (case drugScores of
        [] \<Rightarrow> None
      | x # xs \<Rightarrow>
          Some (numDiv env (foldl (numAdd env) (scoreNumber x) (map scoreNumber xs))
                  (length drugScores)))"

definition expandResult ::
  "env \<Rightarrow> (string \<times> summaryPath) list \<Rightarrow> (string \<times> json) list \<Rightarrow>
   (string \<times> rat option list) list \<Rightarrow> string list \<Rightarrow> summaryResult option" where
  "expandResult env paths nodes scores ps =
     (case ps of
        [] \<Rightarrow> None
      | pid # _ \<Rightarrow>
          (case getPathFromPid paths pid of
             None \<Rightarrow> None
           | Some [] \<Rightarrow> None
           | Some (drug # subgraph) \<Rightarrow>
               (case toStr drug of
                  None \<Rightarrow> None
                | Some drugKey \<Rightarrow>
                    (case Option.bind (map_of nodes drugKey) (\<lambda>node. jsonGetReq node ''names'') of
                       Some (JArr drugName) \<Rightarrow>
                         (case sortPaths env paths ps of
                            None \<Rightarrow> None
                          | Some sortedPaths \<Rightarrow>
                              (case Option.bind (map_of scores drugKey) (meanScore env) of
                                 None \<Rightarrow> None
                               | Some score \<Rightarrow>
                                   Some \<lparr>r_subject = drug,
                                         r_drug_name = (case drugName of [] \<Rightarrow> drug | n # _ \<Rightarrow> n),
                                         r_paths = sortedPaths,
                                         r_object = last (drug # subgraph),
                                         r_score = score\<rparr>))
                     | _ \<Rightarrow> None))))"

definition expandResults ::
  "env \<Rightarrow> string list list \<Rightarrow> (string \<times> summaryPath) list \<Rightarrow> (string \<times> json) list \<Rightarrow>
   (string \<times> rat option list) list \<Rightarrow> summaryResult list option" where
  "expandResults env results paths nodes scores =
     mapM (expandResult env paths nodes scores) results"

text \<open>The state that the loop over the condensed summaries builds.\<close>

record merged =
  m_results :: "(string \<times> string list) list"
  m_paths :: "(string \<times> summaryPath) list"
  m_nodes :: "(string \<times> json) list"
  m_edges :: "(string \<times> json) list"
  m_scores :: "(string \<times> rat option list) list"

definition mergeCondensedSummary :: "env \<Rightarrow> merged \<Rightarrow> condensedSummary \<Rightarrow> merged option" where
  "mergeCondensedSummary env m cs =
     (case fragmentPathsToResultsAndPaths env (f_paths (cs_fragment cs)) of
        None \<Rightarrow> None
      | Some (newResults, newPaths) \<Rightarrow>
          (case extendSummaryNodes (m_nodes m) (f_nodes (cs_fragment cs)) (cs_agent cs) of
             None \<Rightarrow> None
           | Some nodes \<Rightarrow>
               (case extendSummaryEdges (m_edges m) (f_edges (cs_fragment cs)) (cs_agent cs) of
                  None \<Rightarrow> None
                | Some edges \<Rightarrow>
                    Some \<lparr>m_results = extendSummaryResults (m_results m) newResults,
                          m_paths = extendSummaryPaths (m_paths m) newPaths (cs_agent cs),
                          m_nodes = nodes,
                          m_edges = edges,
                          m_scores = extendSummaryScores (m_scores m)
                                       (f_scores (cs_fragment cs))\<rparr>)))"

definition mergeCondensedSummaries :: "env \<Rightarrow> condensedSummary list \<Rightarrow> merged option" where
  "mergeCondensedSummaries env condensedSummaries =
     foldM (mergeCondensedSummary env) condensedSummaries
       \<lparr>m_results = [], m_paths = [], m_nodes = [], m_edges = [], m_scores = []\<rparr>"

definition dedupPath :: "summaryPath \<Rightarrow> summaryPath" where
  "dedupPath p = \<lparr>sp_subgraph = jsonSetOf (sp_subgraph p), sp_aras = setOf (sp_aras p)\<rparr>"

definition condensedSummariesToSummary ::
  "env \<Rightarrow> string \<Rightarrow> condensedSummary list \<Rightarrow> summary option" where
  "condensedSummariesToSummary env qid condensedSummaries =
     (case mergeCondensedSummaries env condensedSummaries of
        None \<Rightarrow> None
      | Some m \<Rightarrow>
          (case Option.bind (cleanEdges env (m_edges m)) (edgesToEdgesAndPublications env) of
             None \<Rightarrow> None
           | Some (edges, publications) \<Rightarrow>
               (let metadataObject = makeMetadataObject qid (map cs_agent condensedSummaries)
                in (case finishNodes (m_nodes m) of
                      None \<Rightarrow> None
                    | Some nodes \<Rightarrow>
                        (case expandResults env (map (\<lambda>kv. setOf (snd kv)) (m_results m))
                                (m_paths m) nodes (m_scores m) of
                           None \<Rightarrow> None
                         | Some results \<Rightarrow>
                             Some \<lparr>s_meta = metadataObject,
                                   s_results = results,
                                   s_paths = map (\<lambda>kv. (fst kv, dedupPath (snd kv))) (m_paths m),
                                   s_nodes = nodes,
                                   s_edges = edges,
                                   s_publications = publications\<rparr>)))))"

text \<open>
  \<open>creativeAnswersToSummary\<close>.  \<open>maxHops\<close> is \<open>SERVER_CONFIG.max_hops\<close> (absent module
  \<open>config.mjs\<close>).
\<close>

definition creativeAnswersToSummary :: "env \<Rightarrow> nat \<Rightarrow> string \<Rightarrow> answer list \<Rightarrow> summary option" where
  "creativeAnswersToSummary env maxHops qid answers =
     (let resultNodes = map (\<lambda>answer. kg_nodes (msg_knowledge_graph (ans_message answer))) answers
      in (case makeCanonicalNodeMapping resultNodes of
            None \<Rightarrow> None
          | Some nodeToCanonicalNode \<Rightarrow>
              (case creativeAnswersToCondensedSummaries env nodeToCanonicalNode maxHops answers of
                 None \<Rightarrow> None
               | Some condensedSummaries \<Rightarrow>
                   condensedSummariesToSummary env qid condensedSummaries)))"

section \<open>Notions used to state the properties\<close>

declare rgraphFold.simps [code]

declare setAdd.simps [simp del]

declare jsonSetAdd.simps [simp del]

text \<open>The state of the merge when the loop over the condensed summaries has ended.\<close>

definition mergedSummary :: "env \<Rightarrow> nat \<Rightarrow> answer list \<Rightarrow> merged option" where
  "mergedSummary env maxHops answers =
     (case makeCanonicalNodeMapping
             (map (\<lambda>answer. kg_nodes (msg_knowledge_graph (ans_message answer))) answers) of
        None \<Rightarrow> None
      | Some nodeToCanonicalNode \<Rightarrow>
          (case creativeAnswersToCondensedSummaries env nodeToCanonicalNode maxHops answers of
             None \<Rightarrow> None
           | Some condensedSummaries \<Rightarrow> mergeCondensedSummaries env condensedSummaries))"

definition isObj :: "json \<Rightarrow> bool" where
  "isObj j = (\<exists>kvs. j = JObj kvs)"

definition arrayAt :: "string \<Rightarrow> json \<Rightarrow> bool" where
  "arrayAt k j = (\<exists>xs. getProp j k = Some (JArr xs))"

definition nodeReady :: "json \<Rightarrow> bool" where
  "nodeReady node = (arrayAt ''names'' node \<and> arrayAt ''curies'' node)"

definition fromNodeRules :: "('a \<times> transform list) list \<Rightarrow> bool" where
  "fromNodeRules updates = (\<forall>u \<in> set updates. \<exists>ko. snd u = nodeRules ko)"

definition fragmentsFromNodeRules :: "condensedSummary list \<Rightarrow> bool" where
  "fragmentsFromNodeRules css = (\<forall>cs \<in> set css. fromNodeRules (f_nodes (cs_fragment cs)))"

text \<open>\<open>cmn.jsonGet(trapiResult, 'normalized_score', 0)\<close>.\<close>

definition scoreOf :: "trapiResult \<Rightarrow> rat" where
  "scoreOf r = (case normalized_score r of None \<Rightarrow> 0 | Some x \<Rightarrow> x)"

text \<open>
  The scores that the fragments of all results contribute under the key \<open>d\<close>, in the
  order of the answers and of their results.
\<close>

definition fragmentScores ::
  "env \<Rightarrow> (string \<times> string) list \<Rightarrow> nat \<Rightarrow> kgraph \<Rightarrow> string \<Rightarrow> trapiResult \<Rightarrow> rat list" where
  "fragmentScores env nodeToCanonicalNode maxHops kgraph d r =
     (case trapiResultToSummaryFragment env nodeToCanonicalNode maxHops r kgraph of
        None \<Rightarrow> []
      | Some f \<Rightarrow> map snd (filter (\<lambda>kv. fst kv = d) (f_scores f)))"

definition drugScores :: "env \<Rightarrow> nat \<Rightarrow> answer list \<Rightarrow> string \<Rightarrow> rat list" where
  "drugScores env maxHops answers d =
     (case makeCanonicalNodeMapping
             (map (\<lambda>answer. kg_nodes (msg_knowledge_graph (ans_message answer))) answers) of
        None \<Rightarrow> []
      | Some nodeToCanonicalNode \<Rightarrow>
          concat (map (\<lambda>answer.
                         concat (map (fragmentScores env nodeToCanonicalNode maxHops
                                        (msg_knowledge_graph (ans_message answer)) d)
                                   (msg_results (ans_message answer))))
                    answers))"

text \<open>What \<open>mergeSummaryFragments\<close> appends under the key \<open>d\<close> for the fragment \<open>f2\<close>.\<close>

definition contrib :: "rat summaryFragment \<Rightarrow> string \<Rightarrow> rat option list" where
  "contrib f2 d = (case f_scores f2 of
      [] \<Rightarrow> if d = ''undefined'' then [None] else []
    | kv # _ \<Rightarrow> if fst kv = d then [Some (snd kv)] else [])"



text \<open>The subgraph that the final summary holds for a path key.\<close>

definition finalSubgraph :: "summary \<Rightarrow> string \<Rightarrow> json list" where
  "finalSubgraph s pid = (case map_of (s_paths s) pid of None \<Rightarrow> [] | Some p \<Rightarrow> sp_subgraph p)"










subsection \<open>A concrete environment and concrete answers\<close>

text \<open>
  A small biolink model, and a path key that spells its path out, for running the
  summarizer on concrete answers.  The scores of the examples are numbers that doubles add
  and divide without rounding, and the arithmetic of the example environment is exact.
\<close>

definition stripBiolink :: "string \<Rightarrow> string" where
  "stripBiolink s = map (\<lambda>c. if c = CHR ''_'' then CHR '' '' else c)
     (if take 8 s = ''biolink:'' then drop 8 s else s)"

definition invertDemo :: "string \<Rightarrow> string" where
  "invertDemo p = (let q = stripBiolink p in
     if q = ''treats'' then ''treated by''
     else if q = ''treated by'' then ''treats''
     else if q = ''affects'' then ''affected by''
     else if q = ''affected by'' then ''affects''
     else p)"

fun showJ :: "json \<Rightarrow> string" where
  "showJ (JStr s) = s"
| "showJ JFalse = ''false''"
| "showJ JTrue = ''true''"
| "showJ JNull = ''null''"
| "showJ _ = ''?''"

definition demoEnv :: env where
  "demoEnv = \<lparr>sanitizeBiolinkElement = stripBiolink,
     invertBiolinkPredicate = invertDemo,
     isBiolinkPredicate = (\<lambda>p. stripBiolink p \<in>
        set [''treats'', ''treated by'', ''affects'', ''affected by'', ''related to'']),
     hash = (\<lambda>js. concat (map (\<lambda>j. ''<'' @ showJ j @ ''>'') js)),
     idToTypeAndUrl = (\<lambda>j. (JStr ''PMID'', JStr (''https://pubmed.ncbi.nlm.nih.gov/'' @ showJ j))),
     isValidId = (\<lambda>j. case j of JStr s \<Rightarrow> take 5 s = ''PMID:'' | _ \<Rightarrow> False),
     strToNumber = (\<lambda>s. None),
     numAdd = (\<lambda>a b. case (a, b) of (Num x, Num y) \<Rightarrow> Num (x + y) | _ \<Rightarrow> NaN),
     numDiv = (\<lambda>a n. case a of Num x \<Rightarrow> Num (x / of_nat n) | _ \<Rightarrow> NaN)\<rparr>"

definition demoNode :: "string \<Rightarrow> knode" where
  "demoNode n = \<lparr>node_name = Some n, node_categories = Some [''biolink:NamedThing''],
     node_attributes = None\<rparr>"

definition demoEdge :: "string \<Rightarrow> string \<Rightarrow> string \<Rightarrow> kedge" where
  "demoEdge s p ob = \<lparr>edge_subject = s, edge_object = ob, edge_predicate = p,
     edge_qualifiers = None,
     edge_attributes = Some [\<lparr>attribute_type_id = ''biolink:publications'',
                              attribute_value = JArr [JStr ''PMID:1'', JStr ''junk'']\<rparr>]\<rparr>"

text \<open>
  Two qualified edges: one with an aspect and a direction of the object, one with a
  \<open>part\<close> of the subject only.
\<close>

definition activityEdge :: kedge where
  "activityEdge = \<lparr>edge_subject = ''CHEBI:1'', edge_object = ''NCBIGene:1'',
     edge_predicate = ''biolink:affects'',
     edge_qualifiers = Some [\<lparr>qualifier_type_id = ''biolink:object_aspect_qualifier'',
                              qualifier_value = ''activity''\<rparr>,
                             \<lparr>qualifier_type_id = ''biolink:object_direction_qualifier'',
                              qualifier_value = ''increased''\<rparr>],
     edge_attributes = None\<rparr>"

definition partEdge :: kedge where
  "partEdge = \<lparr>edge_subject = ''CHEBI:1'', edge_object = ''NCBIGene:1'',
     edge_predicate = ''biolink:affects'',
     edge_qualifiers = Some [\<lparr>qualifier_type_id = ''biolink:subject_part_qualifier'',
                              qualifier_value = ''liver''\<rparr>],
     edge_attributes = None\<rparr>"

text \<open>One agent, one result, one edge \<open>treats(CHEBI:1, MONDO:1)\<close>, score \<open>1/2\<close>.\<close>

definition demoResult :: trapiResult where
  "demoResult = \<lparr>node_bindings = [(''sn'', [''CHEBI:1'']), (''on'', [''MONDO:1''])],
     edge_bindings = [(''t_edge'', [''e1''])],
     normalized_score = Some (1 / 2)\<rparr>"

definition demoGraph :: kgraph where
  "demoGraph = \<lparr>kg_nodes = [(''CHEBI:1'', demoNode ''aspirin''), (''MONDO:1'', demoNode ''flu'')],
     kg_edges = [(''e1'', demoEdge ''CHEBI:1'' ''biolink:treats'' ''MONDO:1'')]\<rparr>"

definition demoAnswer :: answer where
  "demoAnswer = \<lparr>ans_agent = ''ara-a'',
     ans_message = \<lparr>msg_knowledge_graph = demoGraph, msg_results = [demoResult]\<rparr>\<rparr>"


text \<open>
  A result with two paths of three hops from \<open>CHEBI:1\<close> to \<open>MONDO:1\<close>.  One runs over
  \<open>X:1\<close> and \<open>Y:1\<close>, which are the same node: \<open>X:1\<close> names \<open>Y:1\<close> in its \<open>same_as\<close>
  attribute.  The other runs over \<open>A:1\<close> and \<open>B:1\<close>.
\<close>

definition aliasNode :: "string \<Rightarrow> string \<Rightarrow> knode" where
  "aliasNode n alias = \<lparr>node_name = Some n, node_categories = Some [''biolink:NamedThing''],
     node_attributes = Some [\<lparr>attribute_type_id = ''biolink:same_as'',
                              attribute_value = JArr [JStr alias]\<rparr>]\<rparr>"

definition plainEdge :: "string \<Rightarrow> string \<Rightarrow> string \<Rightarrow> kedge" where
  "plainEdge s p ob = \<lparr>edge_subject = s, edge_object = ob, edge_predicate = p,
     edge_qualifiers = None, edge_attributes = None\<rparr>"

definition twoPathGraph :: kgraph where
  "twoPathGraph = \<lparr>kg_nodes =
       [(''CHEBI:1'', demoNode ''aspirin''), (''X:1'', aliasNode ''x'' ''Y:1''),
        (''Y:1'', demoNode ''y''), (''A:1'', demoNode ''a''), (''B:1'', demoNode ''b''),
        (''MONDO:1'', demoNode ''flu'')],
     kg_edges =
       [(''e1'', plainEdge ''CHEBI:1'' ''biolink:affects'' ''X:1''),
        (''e2'', plainEdge ''X:1'' ''biolink:related_to'' ''Y:1''),
        (''e3'', plainEdge ''Y:1'' ''biolink:affects'' ''MONDO:1''),
        (''e4'', plainEdge ''CHEBI:1'' ''biolink:affects'' ''A:1''),
        (''e5'', plainEdge ''A:1'' ''biolink:affects'' ''B:1''),
        (''e6'', plainEdge ''B:1'' ''biolink:affects'' ''MONDO:1'')]\<rparr>"

definition twoPathResult :: trapiResult where
  "twoPathResult = \<lparr>node_bindings =
       [(''sn'', [''CHEBI:1'']), (''on'', [''MONDO:1'']),
        (''n1'', [''X:1'']), (''n2'', [''Y:1'']), (''n3'', [''A:1'']), (''n4'', [''B:1''])],
     edge_bindings = [(''e'', [''e1'', ''e2'', ''e3'', ''e4'', ''e5'', ''e6''])],
     normalized_score = Some 1\<rparr>"

definition twoPathAnswer :: answer where
  "twoPathAnswer = \<lparr>ans_agent = ''ara-a'',
     ans_message = \<lparr>msg_knowledge_graph = twoPathGraph, msg_results = [twoPathResult]\<rparr>\<rparr>"

subsection \<open>Simple paths of a result graph\<close>

text \<open>
  What the loop of \<open>rgraphFold\<close> produces from one element of its stack: the results of
  the element itself, and those of the elements it pushes.
\<close>

inductive yields :: "('a \<Rightarrow> 'a list \<times> 'b list) \<Rightarrow> 'a \<Rightarrow> 'b \<Rightarrow> bool"
  for proc :: "'a \<Rightarrow> 'a list \<times> 'b list" where
  here: "q \<in> set (snd (proc p)) \<Longrightarrow> yields proc p q"
| below: "c \<in> set (fst (proc p)) \<Longrightarrow> yields proc c q \<Longrightarrow> yields proc p q"

text \<open>
  The specification's paths.  An edge \<open>e\<close> of the result graph joins \<open>n\<close> and \<open>t\<close> when
  they are its subject and object in the knowledge graph, in either order.  A path
  \<open>[node, edge, node, ...]\<close> is extended by an edge and a target at a time: the edge joins
  the last node to the target, the target is not in the path so far, and its canonical
  node is not \<open>false\<close>.
\<close>

definition joins :: "kgraph \<Rightarrow> string \<Rightarrow> string \<Rightarrow> string \<Rightarrow> bool" where
  "joins kg n e t =
     (case map_of (kg_edges kg) e of
         None \<Rightarrow> False
       | Some k \<Rightarrow> (edge_subject k = n \<and> edge_object k = t) \<or>
                   (edge_object k = n \<and> edge_subject k = t))"

definition connects :: "kgraph \<Rightarrow> rgraph \<Rightarrow> string \<Rightarrow> string \<Rightarrow> string \<Rightarrow> bool" where
  "connects kg rg n e t = (e \<in> set (rg_edges rg) \<and> joins kg n e t)"

fun pathFrom ::
  "(string \<times> string) list \<Rightarrow> (string \<Rightarrow> string \<Rightarrow> string \<Rightarrow> bool) \<Rightarrow> string list \<Rightarrow>
   string list \<Rightarrow> bool" where
  "pathFrom canon adj p [] = True"
| "pathFrom canon adj p [x] = False"
| "pathFrom canon adj p (e # t # rest) =
     (p \<noteq> [] \<and> adj (last p) e t \<and> t \<notin> set p \<and> canonicalNode canon t \<noteq> JFalse \<and>
      pathFrom canon adj (p @ [e, t]) rest)"

definition simplePath ::
  "(string \<times> string) list \<Rightarrow> (string \<Rightarrow> string \<Rightarrow> string \<Rightarrow> bool) \<Rightarrow> string \<Rightarrow>
   string list \<Rightarrow> bool" where
  "simplePath canon adj drug q =
     (case q of [] \<Rightarrow> False | d # rest \<Rightarrow> d = drug \<and> pathFrom canon adj [drug] rest)"

text \<open>The measure under which the stack of the path finder shrinks.\<close>

definition outDegree :: "(string \<times> (string \<times> string) list) list \<Rightarrow> nat" where
  "outDegree oe = sum_list (map (\<lambda>kv. length (snd kv)) oe)"

definition pathWeight :: "(string \<times> (string \<times> string) list) list \<Rightarrow> nat \<Rightarrow> string list \<Rightarrow> nat" where
  "pathWeight oe maxLen p = (outDegree oe + 1) ^ (maxLen + 2 - length p)"

definition twoPathRgraph :: rgraph where
  "twoPathRgraph = \<lparr>rg_nodes = [''CHEBI:1'', ''MONDO:1'', ''X:1'', ''Y:1'', ''A:1'', ''B:1''],
     rg_edges = [''e1'', ''e2'', ''e3'', ''e4'', ''e5'', ''e6'']\<rparr>"

definition twoPathCanon :: "(string \<times> string) list" where
  "twoPathCanon = [(''CHEBI:1'', ''CHEBI:1''), (''Y:1'', ''Y:1''), (''X:1'', ''Y:1''),
     (''A:1'', ''A:1''), (''B:1'', ''B:1''), (''MONDO:1'', ''MONDO:1'')]"

subsection \<open>Results that cannot be bound\<close>

text \<open>
  A result that the summarizer skips: one of its node bindings is not a node of the
  knowledge graph; or the key \<open>sn\<close> or \<open>on\<close> is missing from its node bindings, while
  its edge bindings are edges of the knowledge graph and neither key is bound to an empty
  list.
\<close>

definition unbindable :: "trapiResult \<Rightarrow> kgraph \<Rightarrow> bool" where
  "unbindable r kg =
     ((\<exists>n \<in> set (flattenBindings (node_bindings r)). map_of (kg_nodes kg) n = None) \<or>
      ((map_of (node_bindings r) subjectKey = None \<or> map_of (node_bindings r) objectKey = None) \<and>
       (\<forall>e \<in> set (flattenBindings (edge_bindings r)). map_of (kg_edges kg) e \<noteq> None) \<and>
       map_of (node_bindings r) subjectKey \<noteq> Some [] \<and>
       map_of (node_bindings r) objectKey \<noteq> Some []))"

text \<open>
  Two score objects that hold the same scores under every key but \<open>undefined\<close>, the key
  under which \<open>mergeSummaryFragments\<close> files the missing score of an empty fragment; two
  condensed summaries, and two states of the merge, that differ in that key only.
\<close>

definition agreeOffUndefined ::
  "(string \<times> rat option list) list \<Rightarrow> (string \<times> rat option list) list \<Rightarrow> bool" where
  "agreeOffUndefined scores scores' =
     (\<forall>d. d \<noteq> ''undefined'' \<longrightarrow> getOr scores d [] = getOr scores' d [])"

definition condensedAgree :: "condensedSummary \<Rightarrow> condensedSummary \<Rightarrow> bool" where
  "condensedAgree c c' =
     (cs_agent c = cs_agent c' \<and>
      f_paths (cs_fragment c) = f_paths (cs_fragment c') \<and>
      f_nodes (cs_fragment c) = f_nodes (cs_fragment c') \<and>
      f_edges (cs_fragment c) = f_edges (cs_fragment c') \<and>
      distinct (map fst (f_scores (cs_fragment c))) \<and>
      distinct (map fst (f_scores (cs_fragment c'))) \<and>
      agreeOffUndefined (f_scores (cs_fragment c)) (f_scores (cs_fragment c')))"

definition mergedAgree :: "merged \<Rightarrow> merged \<Rightarrow> bool" where
  "mergedAgree m m' =
     (m_results m = m_results m' \<and> m_paths m = m_paths m' \<and> m_nodes m = m_nodes m' \<and>
      m_edges m = m_edges m' \<and> agreeOffUndefined (m_scores m) (m_scores m'))"

text \<open>
  Concrete results: one without the key \<open>sn\<close>; one without it whose edge binding is not
  in the knowledge graph; and a graph whose drug node is called \<open>undefined\<close>.
\<close>

definition unboundResult :: trapiResult where
  "unboundResult = \<lparr>node_bindings = [(''on'', [''MONDO:1''])],
     edge_bindings = [(''t_edge'', [''e1''])],
     normalized_score = None\<rparr>"

definition danglingResult :: trapiResult where
  "danglingResult = \<lparr>node_bindings = [(''on'', [''MONDO:1''])],
     edge_bindings = [(''t_edge'', [''e9''])],
     normalized_score = None\<rparr>"

definition answerOf :: "kgraph \<Rightarrow> trapiResult list \<Rightarrow> answer" where
  "answerOf kg rs = \<lparr>ans_agent = ''ara-a'',
     ans_message = \<lparr>msg_knowledge_graph = kg, msg_results = rs\<rparr>\<rparr>"

definition undefinedGraph :: kgraph where
  "undefinedGraph = \<lparr>kg_nodes = [(''undefined'', demoNode ''aspirin''), (''MONDO:1'', demoNode ''flu'')],
     kg_edges = [(''e1'', demoEdge ''undefined'' ''biolink:treats'' ''MONDO:1'')]\<rparr>"

definition undefinedResult :: trapiResult where
  "undefinedResult = \<lparr>node_bindings = [(''sn'', [''undefined'']), (''on'', [''MONDO:1''])],
     edge_bindings = [(''t_edge'', [''e1''])],
     normalized_score = Some (1 / 2)\<rparr>"

subsection \<open>The keys of a summary and the order of the agents\<close>



definition allPaths :: "condensedSummary list \<Rightarrow> json list list" where
  "allPaths css = concat (map (\<lambda>c. f_paths (cs_fragment c)) css)"

definition fragmentPaths :: "env \<Rightarrow> nat \<Rightarrow> answer list \<Rightarrow> json list list" where
  "fragmentPaths env maxHops answers =
     (case makeCanonicalNodeMapping
             (map (\<lambda>answer. kg_nodes (msg_knowledge_graph (ans_message answer))) answers) of
        None \<Rightarrow> []
      | Some nodeToCanonicalNode \<Rightarrow>
          (case creativeAnswersToCondensedSummaries env nodeToCanonicalNode maxHops answers of
             None \<Rightarrow> []
           | Some condensedSummaries \<Rightarrow> allPaths condensedSummaries))"














section \<open>Properties of the annotation classifier\<close>

lemma parseAnnotation_first:
  "parseAnnotation (a # rest) d c g f = parseAnnotation [a] d c g f"
  by simp

lemma parseAnnotation_unclassified:
  "unclassified a \<Longrightarrow> parseAnnotation (a # rest) d c g f = Some f"
  by (simp add: unclassified_def classKeys_def isDisease_def isChemical_def isGene_def)

text \<open>
  Claim C10.  Each of the eight exposed getters looks at the first element of its
  argument only: the elements after it never change the answer.  And when that first
  element has none of the keys \<open>disease_ontology\<close>, \<open>chebi\<close>, \<open>chembl\<close>, \<open>ndc\<close>,
  \<open>symbol\<close>, every getter returns \<open>null\<close>.
\<close>

theorem getters_classify_first_element:
  "(getDescription (a # rest) = getDescription [a] \<and>
    getNames lower (a # rest) = getNames lower [a] \<and>
    getFdaApproval (a # rest) = getFdaApproval [a] \<and>
    getChebiRoles role nm (a # rest) = getChebiRoles role nm [a] \<and>
    getDrugIndications (a # rest) = getDrugIndications [a] \<and>
    getOtc (a # rest) = getOtc [a] \<and>
    getCuries str (a # rest) = getCuries str [a] \<and>
    getSpecies (a # rest) = getSpecies [a]) \<and>
   (unclassified a \<longrightarrow>
    getDescription (a # rest) = Some JNull \<and>
    getNames lower (a # rest) = Some JNull \<and>
    getFdaApproval (a # rest) = Some JNull \<and>
    getChebiRoles role nm (a # rest) = Some JNull \<and>
    getDrugIndications (a # rest) = Some JNull \<and>
    getOtc (a # rest) = Some JNull \<and>
    getCuries str (a # rest) = Some JNull \<and>
    getSpecies (a # rest) = Some JNull)"
  unfolding getDescription_def getNames_def getFdaApproval_def getChebiRoles_def
    getDrugIndications_def getOtc_def getCuries_def getSpecies_def
  using parseAnnotation_unclassified [of a rest]
  by (simp only: parseAnnotation_first [of a rest]) simp

theorem getters_classify_first_element_witness:
  "unclassified [(''taxid'', JNum 9606)] \<and>
   getSpecies [[(''taxid'', JNum 9606)], [(''symbol'', JStr ''TP53'')]] = Some JNull \<and>
   getDescription [[(''taxid'', JNum 9606)], [(''symbol'', JStr ''TP53'')]] = Some JNull"
proof -
  have u: "unclassified [(''taxid'', JNum 9606)]"
    by (simp add: unclassified_def classKeys_def)
  from getters_classify_first_element
    [of "[(''taxid'', JNum 9606)]" "[[(''symbol'', JStr ''TP53'')]]"] u
  show ?thesis by blast
qed
section \<open>General lemmas\<close>

lemma map_of_aset: "map_of (aset kvs k v) = (map_of kvs)(k \<mapsto> v)"
  by (induction kvs) auto

lemma mapM_Some_iff: "mapM f xs = Some ys \<longleftrightarrow> list_all2 (\<lambda>x y. f x = Some y) xs ys"
proof (induction xs arbitrary: ys)
  case Nil
  then show ?case by auto
next
  case (Cons x xs)
  show ?case
  proof (cases ys)
    case Nil
    then show ?thesis by (simp split: option.splits)
  next
    case ys: (Cons y ys')
    show ?thesis
      unfolding ys using Cons.IH [of ys'] by (cases "f x"; cases "mapM f xs") auto
  qed
qed

lemma mapM_in_set:
  "mapM f xs = Some ys \<Longrightarrow> y \<in> set ys \<Longrightarrow> \<exists>x \<in> set xs. f x = Some y"
  unfolding mapM_Some_iff
  by (induction rule: list_all2_induct) auto


lemma foldM_invariant:
  assumes "foldM f xs s = Some t" and "P s"
    and "\<And>a x b. P a \<Longrightarrow> x \<in> set xs \<Longrightarrow> f a x = Some b \<Longrightarrow> P b"
  shows "P t"
  using assms
proof (induction xs arbitrary: s)
  case Nil
  then show ?case by simp
next
  case (Cons x xs)
  from Cons.prems(1) obtain s' where s': "f s x = Some s'" "foldM f xs s' = Some t"
    by (cases "f s x") simp_all
  have Ps': "P s'"
    by (rule Cons.prems(3) [OF Cons.prems(2) _ s'(1)]) simp
  show ?case
  proof (rule Cons.IH [OF s'(2) Ps'])
    fix a y b
    assume "P a" "y \<in> set xs" "f a y = Some b"
    then show "P b" using Cons.prems(3) [of a y b] by simp
  qed
qed

lemma set_aset: "set (aset kvs k v) \<subseteq> insert (k, v) (set kvs)"
  by (induction kvs) (auto split: if_splits)

lemma aset_values:
  "(\<forall>kv \<in> set kvs. P (snd kv)) \<Longrightarrow> P v \<Longrightarrow> \<forall>kv \<in> set (aset kvs k v). P (snd kv)"
  using set_aset [of kvs k v] by fastforce

lemma arrayAt_isObj: "arrayAt k j \<Longrightarrow> isObj j"
  by (cases j) (auto simp: arrayAt_def isObj_def)

lemma getProp_jsonSet:
  "isObj obj \<Longrightarrow> getProp (jsonSet obj k v) k' = (if k' = k then Some v else getProp obj k')"
  by (auto simp: isObj_def map_of_aset)

lemma isObj_jsonSet: "isObj obj \<Longrightarrow> isObj (jsonSet obj k v)"
  by (auto simp: isObj_def)

lemma arrayAt_jsonSet_same: "isObj obj \<Longrightarrow> arrayAt k (jsonSet obj k (JArr xs))"
  by (simp add: arrayAt_def getProp_jsonSet)

lemma arrayAt_jsonSet_other: "arrayAt k obj \<Longrightarrow> k \<noteq> t \<Longrightarrow> arrayAt k (jsonSet obj t v)"
  using arrayAt_isObj [of k obj] by (simp add: arrayAt_def getProp_jsonSet)

lemma jsConcat_array: "jsConcat cv v = Some r \<Longrightarrow> \<exists>xs. r = JArr xs"
  by (cases cv) auto

lemma makeMapping_cases:
  assumes "makeMapping key tr upd fb ko obj = Some obj'"
  obtains v where "upd v obj = Some obj'"
    "(truthy (jsonGet ko key JFalse) \<and> tr (jsonGet ko key JFalse) = Some v) \<or>
     (\<not> truthy (jsonGet ko key JFalse) \<and> v = fb)"
  using assms
  by (auto simp: makeMapping_def Let_def split: if_splits option.splits)

lemma aggregateProperty_shape:
  assumes "aggregateProperty key [t] ko obj = Some obj'"
  shows "\<exists>xs. obj' = jsonSet obj t (JArr xs)"
proof -
  from assms obtain v where
    "aggregatePropertyUpdateWhen v obj [t] (\<lambda>v. True) = Some obj'"
    unfolding aggregateProperty_def aggregatePropertyWhen_def
    by (elim makeMapping_cases)
  then show ?thesis
    by (auto simp: aggregatePropertyUpdateWhen_def Let_def split: if_splits
        dest!: jsConcat_array)
qed

lemma aggregateAndTransformAttributes_shape:
  assumes "aggregateAndTransformAttributes ids t f ko obj = Some obj'"
  shows "\<exists>xs. obj' = jsonSet obj t (JArr xs)"
proof -
  let ?tr = "\<lambda>attributes.
          if areNoAttributes attributes then Some (JArr [])
          else (case attributes of
                  JArr as \<Rightarrow> map_option JArr (collectAttributes ids f as)
                | _ \<Rightarrow> None)"
  let ?val = "jsonGet ko ''attributes'' JFalse"
  from assms obtain v where
    u: "(let cv = jsonGet obj t JFalse
          in if truthy cv then map_option (jsonSet obj t) (jsConcat cv v)
             else Some (jsonSet obj t v)) = Some obj'"
    and v: "(truthy ?val \<and> ?tr ?val = Some v) \<or> (\<not> truthy ?val \<and> v = JArr [])"
    unfolding aggregateAndTransformAttributes_def
    by (elim makeMapping_cases)
  have "\<exists>vs. v = JArr vs"
    using v by (cases ?val) (auto split: if_splits)
  with u show ?thesis
    by (auto simp: Let_def split: if_splits dest!: jsConcat_array)
qed

lemma aggregateAttributes_shape:
  assumes "aggregateAttributes ids t ko obj = Some obj'"
  shows "\<exists>xs. obj' = jsonSet obj t (JArr xs)"
  using assms unfolding aggregateAttributes_def
  by (rule aggregateAndTransformAttributes_shape)

lemma renameAndTransformAttribute_shape:
  assumes "renameAndTransformAttribute a [t] f ko obj = Some obj'"
  shows "\<exists>v. obj' = jsonSet obj t v"
  using assms unfolding renameAndTransformAttribute_def
  by (elim makeMapping_cases) auto

lemma transformProperty_shape:
  assumes "transformProperty key f ko obj = Some obj'"
  shows "\<exists>v. obj' = jsonSet obj key v"
  using assms unfolding transformProperty_def renameAndTransformProperty_def
  by (elim makeMapping_cases) auto

lemma getProperty_shape:
  assumes "getProperty key ko obj = Some obj'"
  shows "\<exists>v. obj' = jsonSet obj key v"
  using assms unfolding getProperty_def renameProperty_def renameAndTransformProperty_def
  by (elim makeMapping_cases) auto

lemma pushAra_shape:
  assumes "pushAra agent obj = Some obj'"
  shows "\<exists>xs. obj' = jsonSet obj ''aras'' (JArr xs) \<and> isObj obj"
  using assms
  by (cases obj) (auto simp: pushAra_def isObj_def split: option.splits json.splits)








section \<open>Properties of the qualified-predicate builder\<close>

lemma qualifierPair_qualifierObj:
  "qualifierPair env (qualifierObj q) =
     Some (sanitizeBiolinkElement env (qualifier_type_id q),
           sanitizeBiolinkElement env (qualifier_value q))"
  by (simp add: qualifierPair_def qualifierObj_def)

lemma qualifiersLoop_typed:
  "\<exists>d. qualifiersLoop env (map qualifierObj qs) acc = Some d \<and>
       map_of d = map_of acc ++
         map_of (rev (map (\<lambda>q. (sanitizeBiolinkElement env (qualifier_type_id q),
                                sanitizeBiolinkElement env (qualifier_value q))) qs))"
proof (induction qs arbitrary: acc)
  case Nil
  then show ?case by simp
next
  case (Cons q qs)
  let ?k = "sanitizeBiolinkElement env (qualifier_type_id q)"
  let ?v = "sanitizeBiolinkElement env (qualifier_value q)"
  from Cons.IH [of "aset acc ?k ?v"] obtain d where
    d: "qualifiersLoop env (map qualifierObj qs) (aset acc ?k ?v) = Some d"
       "map_of d = map_of (aset acc ?k ?v) ++
          map_of (rev (map (\<lambda>q. (sanitizeBiolinkElement env (qualifier_type_id q),
                                 sanitizeBiolinkElement env (qualifier_value q))) qs))"
    by blast
  have "map_of d = map_of acc ++
          map_of (rev (map (\<lambda>q. (sanitizeBiolinkElement env (qualifier_type_id q),
                                 sanitizeBiolinkElement env (qualifier_value q))) (q # qs)))"
    unfolding d(2) map_of_aset
    by (simp add: map_add_def fun_eq_iff split: option.splits)
  with d(1) show ?case
    by (simp add: qualifierPair_qualifierObj)
qed

lemma kedgeToQualifiers_typed_None:
  "edge_qualifiers e = None \<Longrightarrow> kedgeToQualifiers env (kedgeObj e) = Some None"
  by (simp add: kedgeToQualifiers_def kedgeObj_def optField_def jsonGet_def
      split: option.splits)

lemma kedgeToQualifiers_typed_Some:
  "edge_qualifiers e = Some qs \<Longrightarrow>
   \<exists>d. kedgeToQualifiers env (kedgeObj e) = Some (Some d) \<and>
       map_of d = normalizedQualifier env qs"
  using qualifiersLoop_typed [of env qs "[]"]
  by (auto simp add: kedgeToQualifiers_def kedgeObj_def optField_def jsonGet_def
      normalizedQualifier_def)

lemma kedgePredicate_typed:
  "kedgePredicate (kedgeObj e) = Some (JStr (edge_predicate e))"
  by (simp add: kedgePredicate_def jsonGetReq_def kedgeObj_def)

text \<open>What the loop over the qualifier values has built, in terms of the values present.\<close>

lemma qualifierStep_fold:
  "foldl qualifierStep acc pvs =
     (let present = concat (map (\<lambda>pv. case snd pv of
                                         None \<Rightarrow> []
                                       | Some v \<Rightarrow> if v = [] then [] else [(fst pv, v)]) pvs)
      in if acc = []
         then (case present of
                 [] \<Rightarrow> []
               | pv # rest \<Rightarrow> snd pv @ concat (map (\<lambda>pv. '' '' @ fst pv @ snd pv) rest))
         else acc @ concat (map (\<lambda>pv. '' '' @ fst pv @ snd pv) present))"
proof (induction pvs arbitrary: acc)
  case Nil
  show ?case by simp
next
  case (Cons pv pvs)
  obtain p ov where pv: "pv = (p, ov)" by (cases pv) auto
  show ?case
  proof (cases ov)
    case None
    with pv Cons.IH [of acc] show ?thesis by (simp add: Let_def)
  next
    case (Some v)
    show ?thesis
    proof (cases "v = []")
      case True
      with pv Some Cons.IH [of acc] show ?thesis by (simp add: Let_def)
    next
      case False
      show ?thesis
      proof (cases "acc = []")
        case True
        with pv Some False Cons.IH [of v] show ?thesis by (simp add: Let_def)
      next
        case nonempty: False
        with pv Some False Cons.IH [of "acc @ '' '' @ p @ v"] show ?thesis
          by (simp add: Let_def)
      qed
    qed
  qed
qed

lemma qualifiersToString_built:
  assumes "map_of d = normalizedQualifier env qs"
  shows "qualifiersToString side d = builtQualStr env qs side"
proof -
  have "qualifiersToString side d =
      (case presentValues env qs side of
         [] \<Rightarrow> []
       | pv # rest \<Rightarrow> snd pv @ concat (map (\<lambda>pv. '' '' @ fst pv @ snd pv) rest))"
    unfolding qualifiersToString_def Let_def qualifierStep_fold presentValues_def
    by (simp add: assms qualifierPrefixes_def qualifierKeys_def qualifierSlots_def
        cong: option.case_cong if_cong)
  also have "\<dots> = builtQualStr env qs side"
    by (cases "presentValues env qs side")
      (simp_all add: builtQualStr_def joinWords_def comp_def)
  finally show ?thesis .
qed

lemma finalize_compose: "finalizeQualifiedPredicate a p b = composePredicate a p b"
  by (simp add: finalizeQualifiedPredicate_def composePredicate_def joinWords_def)

text \<open>
  Claim C6, as amended.  For every (typed) kedge the qualified-predicate builder returns
  without throwing, and what it returns is: the raw predicate, inverted by
  \<open>invertBiolinkPredicate\<close> when inversion is asked for, if the edge has no qualifiers;
  otherwise the string \<open>"{subjectQualStr} {predicate} {objectQualStr} of"\<close>, where the
  base predicate is replaced by the (non-empty) \<open>qualified predicate\<close> qualifier when
  there is one, the suffix \<open>" of"\<close> is there only with a non-empty string in the object
  place, single spaces join the pieces, and the inverse form swaps the two qualifier
  strings and inverts the base predicate.  In a qualifier string the first value stands
  without its prefix; the values after it carry theirs.
\<close>

theorem edgeToQualifiedPredicate_built:
  "edgeToQualifiedPredicate env (kedgeObj e) invert =
     Some (JStr (builtQualifiedPredicate env e invert))"
proof (cases "edge_qualifiers e")
  case None
  then show ?thesis
    by (simp add: edgeToQualifiedPredicate_def kedgePredicate_typed
        kedgeToQualifiers_typed_None builtQualifiedPredicate_def)
next
  case (Some qs)
  from kedgeToQualifiers_typed_Some [OF Some, of env] obtain d where
    d: "kedgeToQualifiers env (kedgeObj e) = Some (Some d)"
       "map_of d = normalizedQualifier env qs"
    by blast
  show ?thesis
    by (simp add: edgeToQualifiedPredicate_def kedgePredicate_typed d Some
        builtQualifiedPredicate_def basePredicate_def subjectQualifiersToString_def
        objectQualifiersToString_def qualifiersToString_built [OF d(2)]
        finalize_compose Let_def split: option.splits)
qed

text \<open>
  The builder on the edge \<open>affects\<close> with the object aspect \<open>activity\<close> and the object
  direction \<open>increased\<close>, and on an edge without qualifiers.
\<close>

theorem edgeToQualifiedPredicate_built_witness:
  "edgeToQualifiedPredicate demoEnv (kedgeObj activityEdge) False =
     Some (JStr ''biolink:affects increased activity of'') \<and>
   edgeToQualifiedPredicate demoEnv (kedgeObj activityEdge) True =
     Some (JStr ''increased activity affected by'') \<and>
   edgeToQualifiedPredicate demoEnv (kedgeObj (plainEdge ''CHEBI:1'' ''biolink:treats'' ''MONDO:1''))
     True = Some (JStr ''treated by'')"
proof -
  have "builtQualifiedPredicate demoEnv activityEdge False =
      ''biolink:affects increased activity of''"
    by code_simp
  moreover have "builtQualifiedPredicate demoEnv activityEdge True =
      ''increased activity affected by''"
    by code_simp
  moreover have "builtQualifiedPredicate demoEnv
      (plainEdge ''CHEBI:1'' ''biolink:treats'' ''MONDO:1'') True = ''treated by''"
    by code_simp
  ultimately show ?thesis
    using edgeToQualifiedPredicate_built [of demoEnv activityEdge False]
      edgeToQualifiedPredicate_built [of demoEnv activityEdge True]
      edgeToQualifiedPredicate_built
        [of demoEnv "plainEdge ''CHEBI:1'' ''biolink:treats'' ''MONDO:1''" True]
    by simp
qed

text \<open>
  The claim as the specification composes the qualifier strings fails: for an edge whose
  only qualifier is the subject's \<open>part\<close>, the words give \<open>of the liver\<close> in front of the
  predicate, and the builder gives \<open>liver\<close>.
\<close>

theorem first_qualifier_has_no_prefix:
  "specQualifiedPredicate demoEnv partEdge False = ''of the liver biolink:affects'' \<and>
   edgeToQualifiedPredicate demoEnv (kedgeObj partEdge) False =
     Some (JStr ''liver biolink:affects'')"
  by code_simp
section \<open>The stages of the summarizer\<close>

lemma summary_stages:
  assumes "creativeAnswersToSummary env maxHops qid answers = Some s"
  obtains canon css m edges0 where
    "makeCanonicalNodeMapping
       (map (\<lambda>answer. kg_nodes (msg_knowledge_graph (ans_message answer))) answers) = Some canon"
    "creativeAnswersToCondensedSummaries env canon maxHops answers = Some css"
    "mergeCondensedSummaries env css = Some m"
    "mergedSummary env maxHops answers = Some m"
    "cleanEdges env (m_edges m) = Some edges0"
    "edgesToEdgesAndPublications env edges0 = Some (s_edges s, s_publications s)"
    "finishNodes (m_nodes m) = Some (s_nodes s)"
    "expandResults env (map (\<lambda>kv. setOf (snd kv)) (m_results m)) (m_paths m) (s_nodes s)
       (m_scores m) = Some (s_results s)"
    "s_paths s = map (\<lambda>kv. (fst kv, dedupPath (snd kv))) (m_paths m)"
    "s_meta s = makeMetadataObject qid (map cs_agent css)"
proof -
  let ?rn = "map (\<lambda>answer. kg_nodes (msg_knowledge_graph (ans_message answer))) answers"
  from assms obtain canon where canon: "makeCanonicalNodeMapping ?rn = Some canon"
    by (cases "makeCanonicalNodeMapping ?rn")
      (simp_all add: creativeAnswersToSummary_def Let_def)
  from assms canon obtain css where
    css: "creativeAnswersToCondensedSummaries env canon maxHops answers = Some css"
    by (cases "creativeAnswersToCondensedSummaries env canon maxHops answers")
      (simp_all add: creativeAnswersToSummary_def Let_def)
  from assms canon css have cs: "condensedSummariesToSummary env qid css = Some s"
    by (simp add: creativeAnswersToSummary_def Let_def)
  then obtain m where m: "mergeCondensedSummaries env css = Some m"
    by (cases "mergeCondensedSummaries env css")
      (simp_all add: condensedSummariesToSummary_def)
  from cs m obtain edges0 where e0: "cleanEdges env (m_edges m) = Some edges0"
    by (cases "cleanEdges env (m_edges m)")
      (simp_all add: condensedSummariesToSummary_def)
  from cs m e0 obtain edges pubs where
    ep: "edgesToEdgesAndPublications env edges0 = Some (edges, pubs)"
    by (cases "edgesToEdgesAndPublications env edges0")
      (auto simp add: condensedSummariesToSummary_def)
  from cs m e0 ep obtain nodes where n: "finishNodes (m_nodes m) = Some nodes"
    by (cases "finishNodes (m_nodes m)")
      (simp_all add: condensedSummariesToSummary_def Let_def)
  from cs m e0 ep n obtain rs where
    rs: "expandResults env (map (\<lambda>kv. setOf (snd kv)) (m_results m)) (m_paths m) nodes
           (m_scores m) = Some rs"
    by (cases "expandResults env (map (\<lambda>kv. setOf (snd kv)) (m_results m)) (m_paths m) nodes
           (m_scores m)")
      (simp_all add: condensedSummariesToSummary_def Let_def)
  from cs m e0 ep n rs have s:
    "s = \<lparr>s_meta = makeMetadataObject qid (map cs_agent css), s_results = rs,
          s_paths = map (\<lambda>kv. (fst kv, dedupPath (snd kv))) (m_paths m),
          s_nodes = nodes, s_edges = edges, s_publications = pubs\<rparr>"
    by (simp add: condensedSummariesToSummary_def Let_def)
  have ms: "mergedSummary env maxHops answers = Some m"
    by (simp add: mergedSummary_def canon css m)
  show ?thesis
    by (rule that [OF canon css m ms e0]) (simp_all add: s ep n rs)
qed

lemma setAdd_not_Nil: "setAdd acc x \<noteq> []"
  by (cases "x \<in> set acc") (auto simp: setAdd.simps)

lemma foldl_setAdd_Nil: "foldl setAdd acc xs = [] \<longleftrightarrow> acc = [] \<and> xs = []"
proof (induction xs arbitrary: acc)
  case Nil
  show ?case by simp
next
  case (Cons x xs)
  have "foldl setAdd acc (x # xs) = foldl setAdd (setAdd acc x) xs"
    by (simp only: foldl_Cons)
  then show ?case
    using Cons.IH [of "setAdd acc x"] setAdd_not_Nil [of acc x] by simp
qed

lemma setOf_Nil: "setOf xs = [] \<longleftrightarrow> xs = []"
  by (simp add: setOf_def foldl_setAdd_Nil)

lemma jsonSetAdd_not_Nil: "jsonSetAdd acc x \<noteq> []"
  by (cases "primitive x \<and> x \<in> set acc") (auto simp: jsonSetAdd.simps)

lemma foldl_jsonSetAdd_Nil: "foldl jsonSetAdd acc xs = [] \<longleftrightarrow> acc = [] \<and> xs = []"
proof (induction xs arbitrary: acc)
  case Nil
  show ?case by simp
next
  case (Cons x xs)
  have "foldl jsonSetAdd acc (x # xs) = foldl jsonSetAdd (jsonSetAdd acc x) xs"
    by simp
  then show ?case
    using Cons.IH [of "jsonSetAdd acc x"] jsonSetAdd_not_Nil [of acc x] by simp
qed

lemma jsonSetOf_Nil: "jsonSetOf xs = [] \<longleftrightarrow> xs = []"
  by (simp add: jsonSetOf_def foldl_jsonSetAdd_Nil)

lemma map_of_map_snd:
  "map_of (map (\<lambda>kv. (fst kv, g (snd kv))) kvs) k = map_option g (map_of kvs k)"
  by (induction kvs) auto

lemma getProp_objRemoveDuplicates:
  "getProp node k = Some (JArr xs) \<Longrightarrow>
   getProp (objRemoveDuplicates node) k = Some (JArr (jsonSetOf xs))"
  by (cases node) (auto simp: map_of_map_snd)

lemma isObj_objRemoveDuplicates: "isObj node \<Longrightarrow> isObj (objRemoveDuplicates node)"
  by (auto simp: isObj_def)

lemma finishNode_ready:
  assumes "nodeReady node0"
  shows "\<exists>names0 curies0.
     getProp node0 ''names'' = Some (JArr names0) \<and>
     getProp node0 ''curies'' = Some (JArr curies0) \<and>
     (\<exists>node. finishNode k node0 = Some node \<and>
        getProp node ''names'' = Some (JArr (if names0 = [] then [JStr k] else jsonSetOf names0)) \<and>
        getProp node ''curies'' = Some (JArr (if curies0 = [] then [JStr k] else jsonSetOf curies0)))"
proof -
  from assms obtain names0 curies0 where
    n0: "getProp node0 ''names'' = Some (JArr names0)" and
    c0: "getProp node0 ''curies'' = Some (JArr curies0)"
    by (auto simp: nodeReady_def arrayAt_def)
  let ?node = "objRemoveDuplicates node0"
  have obj: "isObj ?node"
    using assms by (auto simp: nodeReady_def dest!: arrayAt_isObj intro: isObj_objRemoveDuplicates)
  note n1 = getProp_objRemoveDuplicates [OF n0]
  note c1 = getProp_objRemoveDuplicates [OF c0]
  show ?thesis
    using n0 c0 n1 c1 obj
    by (auto simp: finishNode_def Let_def jsonGetReq_def getProp_jsonSet isObj_jsonSet
        pushIfEmpty_def isArrayEmpty_def jsonSetOf_Nil)
qed

lemma fragment_cases:
  assumes "trapiResultToSummaryFragment env canon maxHops r kg = Some f"
  obtains (empty) "resultPaths env canon maxHops r kg = Some None" "f = emptySummaryFragment"
  | (full) rg drug ps key paths nodes edges where
      "resultPaths env canon maxHops r kg = Some (Some (rg, drug, ps))"
      "toStr (rnodeToKey canon drug) = Some key"
      "mapM (normalizePath env canon kg) ps = Some paths"
      "mapM (summarizeRnode canon kg) (rg_nodes rg) = Some nodes"
      "mapM (summarizeRedge env canon kg) (rg_edges rg) = Some edges"
      "f = makeSummaryFragment paths nodes edges [(key, scoreOf r)]"
proof (cases "resultPaths env canon maxHops r kg")
  case None
  with assms show ?thesis by (simp add: trapiResultToSummaryFragment_def)
next
  case (Some rp)
  show ?thesis
  proof (cases rp)
    case None
    with Some assms empty show ?thesis by (simp add: trapiResultToSummaryFragment_def)
  next
    case inner: (Some t)
    obtain rg drug ps where t: "t = (rg, drug, ps)" by (cases t) auto
    from assms Some inner t obtain key where key: "toStr (rnodeToKey canon drug) = Some key"
      by (cases "toStr (rnodeToKey canon drug)") (simp_all add: trapiResultToSummaryFragment_def)
    from assms Some inner t key obtain paths where
      paths: "mapM (normalizePath env canon kg) ps = Some paths"
      by (cases "mapM (normalizePath env canon kg) ps")
        (simp_all add: trapiResultToSummaryFragment_def Let_def)
    from assms Some inner t key paths obtain nodes where
      nodes: "mapM (summarizeRnode canon kg) (rg_nodes rg) = Some nodes"
      by (cases "mapM (summarizeRnode canon kg) (rg_nodes rg)")
        (simp_all add: trapiResultToSummaryFragment_def Let_def)
    from assms Some inner t key paths nodes obtain edges where
      edges: "mapM (summarizeRedge env canon kg) (rg_edges rg) = Some edges"
      by (cases "mapM (summarizeRedge env canon kg) (rg_edges rg)")
        (simp_all add: trapiResultToSummaryFragment_def Let_def)
    from assms Some inner t key paths nodes edges
    have "f = makeSummaryFragment paths nodes edges [(key, scoreOf r)]"
      by (simp add: trapiResultToSummaryFragment_def Let_def scoreOf_def)
    with Some inner t key paths nodes edges full show ?thesis by blast
  qed
qed

section \<open>Properties of the summary nodes\<close>

lemma applyTransforms_Cons:
  "applyTransforms agent (t # ts) obj = Some obj' \<longleftrightarrow>
   (\<exists>o1 o2. t obj = Some o1 \<and> pushAra agent o1 = Some o2 \<and>
            applyTransforms agent ts o2 = Some obj')"
  by (auto simp: applyTransforms_def split: option.splits)

lemma applyTransforms_Nil: "applyTransforms agent [] obj = Some obj' \<longleftrightarrow> obj' = obj"
  by (auto simp: applyTransforms_def)

lemma isObj_of_jsonSet: "isObj (jsonSet obj k v) \<Longrightarrow> isObj obj"
  by (cases obj) (auto simp: isObj_def)

lemma step_establish:
  assumes "pushAra agent o1 = Some o2" "o1 = jsonSet obj t (JArr xs)" "t \<noteq> ''aras''"
  shows "arrayAt t o2"
proof -
  from pushAra_shape [OF assms(1)] obtain ys where
    o2: "o2 = jsonSet o1 ''aras'' (JArr ys)" and "isObj o1" by blast
  then have "isObj obj" using assms(2) isObj_of_jsonSet by blast
  then have "arrayAt t o1" unfolding assms(2) by (rule arrayAt_jsonSet_same)
  then show ?thesis unfolding o2 using assms(3) by (rule arrayAt_jsonSet_other)
qed

lemma step_preserve:
  assumes "pushAra agent o1 = Some o2" "o1 = jsonSet obj t v" "k \<noteq> t" "k \<noteq> ''aras''"
    "arrayAt k obj"
  shows "arrayAt k o2"
proof -
  from pushAra_shape [OF assms(1)] obtain ys where
    o2: "o2 = jsonSet o1 ''aras'' (JArr ys)" by blast
  have "arrayAt k o1" unfolding assms(2) using assms(5,3) by (rule arrayAt_jsonSet_other)
  then show ?thesis unfolding o2 using assms(4) by (rule arrayAt_jsonSet_other)
qed

lemma nodeRules_ready:
  assumes "applyTransforms agent (nodeRules ko) obj = Some obj'"
  shows "nodeReady obj'"
proof -
  from assms obtain a1 b1 a2 b2 a3 b3 a4 b4 a5 b5 a6 b6 a7 b7 a8 where
    t1: "aggregateProperty ''name'' [''names''] ko obj = Some a1" "pushAra agent a1 = Some b1" and
    t2: "aggregateProperty ''categories'' [''types''] ko b1 = Some a2" "pushAra agent a2 = Some b2" and
    t3: "aggregateAttributes [tagBiolink ''xref''] ''curies'' ko b2 = Some a3"
        "pushAra agent a3 = Some b3" and
    t4: "renameAndTransformAttribute (tagBiolink ''highest_FDA_approval_status'') [''fda_info'']
          (\<lambda>fdaDescription. Some (JObj [(''highest_fda_approval_status'', fdaDescription)])) ko b3
          = Some a4" "pushAra agent a4 = Some b4" and
    t5: "aggregateAttributes [tagBiolink ''description''] ''descriptions'' ko b4 = Some a5"
        "pushAra agent a5 = Some b5" and
    t6: "aggregateAttributes [tagBiolink ''synonym''] ''synonyms'' ko b5 = Some a6"
        "pushAra agent a6 = Some b6" and
    t7: "aggregateAttributes [tagBiolink ''same_as''] ''same_as'' ko b6 = Some a7"
        "pushAra agent a7 = Some b7" and
    t8: "aggregateAttributes [tagBiolink ''IriType''] ''iri_types'' ko b7 = Some a8"
        "pushAra agent a8 = Some obj'"
    unfolding nodeRules_def makeSummarizeRules_def list.map applyTransforms_Cons
      applyTransforms_Nil
    by blast
  from aggregateProperty_shape [OF t1(1)] t1(2) have n1: "arrayAt ''names'' b1"
    by (auto intro: step_establish)
  from aggregateProperty_shape [OF t2(1)] t2(2) n1 have n2: "arrayAt ''names'' b2"
    by (auto intro: step_preserve)
  from aggregateAttributes_shape [OF t3(1)] t3(2) n2 have n3: "arrayAt ''names'' b3"
    by (auto intro: step_preserve)
  from aggregateAttributes_shape [OF t3(1)] t3(2) have c3: "arrayAt ''curies'' b3"
    by (auto intro: step_establish)
  from renameAndTransformAttribute_shape [OF t4(1)] t4(2) n3 have n4: "arrayAt ''names'' b4"
    by (auto intro: step_preserve)
  from renameAndTransformAttribute_shape [OF t4(1)] t4(2) c3 have c4: "arrayAt ''curies'' b4"
    by (auto intro: step_preserve)
  from aggregateAttributes_shape [OF t5(1)] t5(2) n4 have n5: "arrayAt ''names'' b5"
    by (auto intro: step_preserve)
  from aggregateAttributes_shape [OF t5(1)] t5(2) c4 have c5: "arrayAt ''curies'' b5"
    by (auto intro: step_preserve)
  from aggregateAttributes_shape [OF t6(1)] t6(2) n5 have n6: "arrayAt ''names'' b6"
    by (auto intro: step_preserve)
  from aggregateAttributes_shape [OF t6(1)] t6(2) c5 have c6: "arrayAt ''curies'' b6"
    by (auto intro: step_preserve)
  from aggregateAttributes_shape [OF t7(1)] t7(2) n6 have n7: "arrayAt ''names'' b7"
    by (auto intro: step_preserve)
  from aggregateAttributes_shape [OF t7(1)] t7(2) c6 have c7: "arrayAt ''curies'' b7"
    by (auto intro: step_preserve)
  from aggregateAttributes_shape [OF t8(1)] t8(2) n7 have n8: "arrayAt ''names'' obj'"
    by (auto intro: step_preserve)
  from aggregateAttributes_shape [OF t8(1)] t8(2) c7 have c8: "arrayAt ''curies'' obj'"
    by (auto intro: step_preserve)
  from n8 c8 show ?thesis by (simp add: nodeReady_def)
qed

lemma extendSummaryObj_ready:
  assumes "extendSummaryObj objs updates agent = Some objs'"
    and "\<forall>kv \<in> set objs. nodeReady (snd kv)"
    and "fromNodeRules updates"
  shows "\<forall>kv \<in> set objs'. nodeReady (snd kv)"
proof (rule foldM_invariant [OF assms(1) [unfolded extendSummaryObj_def], where
      P = "\<lambda>objs. \<forall>kv \<in> set objs. nodeReady (snd kv)"])
  show "\<forall>kv \<in> set objs. nodeReady (snd kv)" by (rule assms(2))
next
  fix a x b
  assume a: "\<forall>kv \<in> set a. nodeReady (snd kv)" and x: "x \<in> set updates"
    and b: "map_option (aset a (fst x))
              (applyTransforms agent (snd x) (getOr a (fst x) (JObj [(''aras'', JArr [])])))
            = Some b"
  from x assms(3) obtain ko where ko: "snd x = nodeRules ko"
    by (auto simp: fromNodeRules_def)
  from b obtain obj' where
    obj': "applyTransforms agent (nodeRules ko) (getOr a (fst x) (JObj [(''aras'', JArr [])]))
            = Some obj'" and b': "b = aset a (fst x) obj'"
    unfolding ko by auto
  from nodeRules_ready [OF obj'] have "nodeReady obj'" .
  with a show "\<forall>kv \<in> set b. nodeReady (snd kv)"
    unfolding b' by (rule aset_values)
qed

lemma extendSummaryNodes_ready:
  assumes "extendSummaryNodes nodes nodeUpdates agent = Some nodes'"
    and "\<forall>kv \<in> set nodes. nodeReady (snd kv)"
    and "fromNodeRules nodeUpdates"
  shows "\<forall>kv \<in> set nodes'. nodeReady (snd kv)"
proof -
  from assms(1) obtain updates where
    u: "mapM (\<lambda>update. map_option (\<lambda>k. (k, snd update)) (toStr (fst update))) nodeUpdates
         = Some updates"
    and e: "extendSummaryObj nodes updates agent = Some nodes'"
    by (auto simp: extendSummaryNodes_def split: option.splits)
  have "fromNodeRules updates"
    unfolding fromNodeRules_def
  proof
    fix y assume "y \<in> set updates"
    from mapM_in_set [OF u this] obtain x where
      "x \<in> set nodeUpdates" "map_option (\<lambda>k. (k, snd x)) (toStr (fst x)) = Some y"
      by blast
    then show "\<exists>ko. snd y = nodeRules ko"
      using assms(3) by (auto simp: fromNodeRules_def)
  qed
  with e assms(2) show ?thesis by (rule extendSummaryObj_ready)
qed

lemma mergeCondensedSummaries_ready:
  assumes "mergeCondensedSummaries env css = Some m" "fragmentsFromNodeRules css"
  shows "\<forall>kv \<in> set (m_nodes m). nodeReady (snd kv)"
proof (rule foldM_invariant [OF assms(1) [unfolded mergeCondensedSummaries_def], where
      P = "\<lambda>m. \<forall>kv \<in> set (m_nodes m). nodeReady (snd kv)"])
  show "\<forall>kv\<in>set (m_nodes \<lparr>m_results = [], m_paths = [], m_nodes = [], m_edges = [],
          m_scores = []\<rparr>). nodeReady (snd kv)" by simp
next
  fix a x b
  assume a: "\<forall>kv \<in> set (m_nodes a). nodeReady (snd kv)" and x: "x \<in> set css"
    and b: "mergeCondensedSummary env a x = Some b"
  from b obtain nodes where
    n: "extendSummaryNodes (m_nodes a) (f_nodes (cs_fragment x)) (cs_agent x) = Some nodes"
    and "m_nodes b = nodes"
    by (auto simp: mergeCondensedSummary_def split: option.splits prod.splits)
  moreover from x assms(2) have "fromNodeRules (f_nodes (cs_fragment x))"
    by (simp add: fragmentsFromNodeRules_def)
  ultimately show "\<forall>kv \<in> set (m_nodes b). nodeReady (snd kv)"
    using extendSummaryNodes_ready [OF n a] by simp
qed

lemma fragment_fromNodeRules:
  assumes "trapiResultToSummaryFragment env canon maxHops r kg = Some f"
  shows "fromNodeRules (f_nodes f)"
  using assms
proof (cases rule: fragment_cases)
  case empty
  then show ?thesis
    by (simp add: emptySummaryFragment_def makeSummaryFragment_def fromNodeRules_def)
next
  case (full rg drug ps key paths nodes edges)
  show ?thesis unfolding fromNodeRules_def
  proof
    fix u assume "u \<in> set (f_nodes f)"
    then have "u \<in> set nodes" using full(6) by (simp add: makeSummaryFragment_def)
    from mapM_in_set [OF full(4) this]
    show "\<exists>ko. snd u = nodeRules ko"
      by (auto simp: summarizeRnode_def)
  qed
qed

lemma condensed_fromNodeRules:
  assumes "creativeAnswersToCondensedSummaries env canon maxHops answers = Some css"
  shows "fragmentsFromNodeRules css"
  unfolding fragmentsFromNodeRules_def
proof
  fix cs assume "cs \<in> set css"
  from mapM_in_set [OF assms [unfolded creativeAnswersToCondensedSummaries_def] this]
  obtain a :: answer where
    "map_option (makeCondensedSummary (ans_agent a))
       (foldM (\<lambda>summaryFragment result.
                 map_option (mergeSummaryFragments summaryFragment)
                   (trapiResultToSummaryFragment env canon maxHops result
                      (msg_knowledge_graph (ans_message a))))
          (msg_results (ans_message a)) emptySummaryFragment) = Some cs"
    unfolding Let_def by blast
  then obtain fr where
    fr: "foldM (\<lambda>summaryFragment result.
                 map_option (mergeSummaryFragments summaryFragment)
                   (trapiResultToSummaryFragment env canon maxHops result
                      (msg_knowledge_graph (ans_message a))))
          (msg_results (ans_message a)) emptySummaryFragment = Some fr"
    and cs: "cs = makeCondensedSummary (ans_agent a) fr"
    by auto
  have "fromNodeRules (f_nodes fr)"
  proof (rule foldM_invariant [OF fr, where P = "\<lambda>f. fromNodeRules (f_nodes f)"])
    show "fromNodeRules (f_nodes (emptySummaryFragment :: rat option list summaryFragment))"
      by (simp add: emptySummaryFragment_def makeSummaryFragment_def fromNodeRules_def)
  next
    fix f1 r f'
    assume f1: "fromNodeRules (f_nodes f1)"
      and "map_option (mergeSummaryFragments f1)
             (trapiResultToSummaryFragment env canon maxHops r
                (msg_knowledge_graph (ans_message a))) = Some f'"
    then obtain f2 where
      f2: "trapiResultToSummaryFragment env canon maxHops r
             (msg_knowledge_graph (ans_message a)) = Some f2"
      and f': "f' = mergeSummaryFragments f1 f2"
      by auto
    from fragment_fromNodeRules [OF f2] f1 show "fromNodeRules (f_nodes f')"
      unfolding f' by (auto simp: mergeSummaryFragments_def Let_def fromNodeRules_def)
  qed
  then show "fromNodeRules (f_nodes (cs_fragment cs))"
    unfolding cs by (simp add: makeCondensedSummary_def)
qed

text \<open>
  Claim C9.  For every node of the final summary's \<open>nodes\<close> map, \<open>names\<close> and \<open>curies\<close>
  are non-empty arrays.  Each is what the transforms accumulated for the node during the
  merge, without its duplicates; when they accumulated nothing, it is the array that holds
  the node's key, its canonical CURIE, alone.
\<close>

theorem node_names_and_curies_nonempty:
  assumes "creativeAnswersToSummary env maxHops qid answers = Some s"
    and "(k, node) \<in> set (s_nodes s)"
  shows "\<exists>names curies.
     getProp node ''names'' = Some (JArr names) \<and> names \<noteq> [] \<and>
     getProp node ''curies'' = Some (JArr curies) \<and> curies \<noteq> [] \<and>
     (\<exists>m node0 names0 curies0.
        mergedSummary env maxHops answers = Some m \<and> (k, node0) \<in> set (m_nodes m) \<and>
        getProp node0 ''names'' = Some (JArr names0) \<and>
        getProp node0 ''curies'' = Some (JArr curies0) \<and>
        names = (if names0 = [] then [JStr k] else jsonSetOf names0) \<and>
        curies = (if curies0 = [] then [JStr k] else jsonSetOf curies0))"
proof -
  from assms(1) obtain canon css m where
    css: "creativeAnswersToCondensedSummaries env canon maxHops answers = Some css" and
    m: "mergeCondensedSummaries env css = Some m" and
    ms: "mergedSummary env maxHops answers = Some m" and
    fin: "finishNodes (m_nodes m) = Some (s_nodes s)"
    by (rule summary_stages)
  from mapM_in_set [OF fin [unfolded finishNodes_def] assms(2)] obtain kv0 where
    kv0: "kv0 \<in> set (m_nodes m)" and
    f: "map_option (\<lambda>node. (fst kv0, node)) (finishNode (fst kv0) (snd kv0)) = Some (k, node)"
    by blast
  then have k: "fst kv0 = k" and fn: "finishNode k (snd kv0) = Some node"
    by auto
  have "nodeReady (snd kv0)"
    using mergeCondensedSummaries_ready [OF m condensed_fromNodeRules [OF css]] kv0 by blast
  from finishNode_ready [OF this, of k] fn obtain names0 curies0 where
    "getProp (snd kv0) ''names'' = Some (JArr names0)"
    "getProp (snd kv0) ''curies'' = Some (JArr curies0)"
    "getProp node ''names'' = Some (JArr (if names0 = [] then [JStr k] else jsonSetOf names0))"
    "getProp node ''curies'' = Some (JArr (if curies0 = [] then [JStr k] else jsonSetOf curies0))"
    by auto
  moreover have "(k, snd kv0) \<in> set (m_nodes m)" using kv0 k by (cases kv0) auto
  ultimately show ?thesis using ms
    by (intro exI conjI) (assumption | simp add: jsonSetOf_Nil | rule refl)+
qed

theorem node_names_and_curies_nonempty_witness:
  "\<exists>s node. creativeAnswersToSummary demoEnv 3 ''Q1'' [demoAnswer] = Some s \<and>
     (''CHEBI:1'', node) \<in> set (s_nodes s) \<and>
     (\<exists>names curies.
        getProp node ''names'' = Some (JArr names) \<and> names \<noteq> [] \<and>
        getProp node ''curies'' = Some (JArr curies) \<and> curies \<noteq> [])"
proof -
  let ?n1 = "JObj [(''aras'', JArr [JStr ''ara-a'']), (''names'', JArr [JStr ''aspirin'']),
      (''types'', JArr [JStr ''biolink:NamedThing'']), (''curies'', JArr [JStr ''CHEBI:1'']),
      (''fda_info'', JNull), (''descriptions'', JArr []), (''synonyms'', JArr []),
      (''same_as'', JArr []), (''iri_types'', JArr [])]"
  let ?n2 = "JObj [(''aras'', JArr [JStr ''ara-a'']), (''names'', JArr [JStr ''flu'']),
      (''types'', JArr [JStr ''biolink:NamedThing'']), (''curies'', JArr [JStr ''MONDO:1'']),
      (''fda_info'', JNull), (''descriptions'', JArr []), (''synonyms'', JArr []),
      (''same_as'', JArr []), (''iri_types'', JArr [])]"
  have run: "map_option s_nodes (creativeAnswersToSummary demoEnv 3 ''Q1'' [demoAnswer]) =
      Some [(''CHEBI:1'', ?n1), (''MONDO:1'', ?n2)]"
    by code_simp
  then obtain s where s: "creativeAnswersToSummary demoEnv 3 ''Q1'' [demoAnswer] = Some s"
    and n: "s_nodes s = [(''CHEBI:1'', ?n1), (''MONDO:1'', ?n2)]"
    by auto
  have mem: "(''CHEBI:1'', ?n1) \<in> set (s_nodes s)" by (simp add: n)
  from node_names_and_curies_nonempty [OF s mem] s mem show ?thesis by blast
qed

section \<open>Properties of the result scores\<close>

lemma getOr_aset: "getOr (aset m k v) k' d = (if k' = k then v else getOr m k' d)"
  by (simp add: getOr_def map_of_aset)

lemma map_fst_aset: "set (map fst (aset m k v)) = insert k (set (map fst m))"
proof -
  have "fst ` set (aset m k v) = dom (map_of (aset m k v))"
    by (simp add: dom_map_of_conv_image_fst)
  also have "\<dots> = insert k (dom (map_of m))"
    by (simp add: map_of_aset)
  finally show ?thesis by (simp add: dom_map_of_conv_image_fst)
qed

lemma distinct_aset: "distinct (map fst m) \<Longrightarrow> distinct (map fst (aset m k v))"
proof (induction m)
  case Nil
  then show ?case by simp
next
  case (Cons a m)
  then show ?case
    using map_fst_aset [of m k v] by (cases a) auto
qed

lemma getOr_notin: "k \<notin> set (map fst m) \<Longrightarrow> getOr m k d = d"
  by (simp add: getOr_def map_of_eq_None_iff [THEN iffD2])

lemma merge_scores:
  "getOr (f_scores (mergeSummaryFragments f1 f2)) d [] = getOr (f_scores f1) d [] @ contrib f2 d"
proof -
  have g: "\<And>m k. (case map_of m k of None \<Rightarrow> [] | Some xs \<Rightarrow> xs) = getOr m k ([] :: rat option list)"
    by (simp add: getOr_def)
  show ?thesis
    by (cases "f_scores f2") (simp_all add: mergeSummaryFragments_def Let_def g getOr_aset contrib_def)
qed

lemma merge_distinct:
  "distinct (map fst (f_scores f1)) \<Longrightarrow>
   distinct (map fst (f_scores (mergeSummaryFragments f1 f2)))"
  by (simp add: mergeSummaryFragments_def Let_def distinct_aset)

lemma foldM_map_option:
  "foldM (\<lambda>acc r. map_option (g acc) (h r)) rs a = map_option (foldl g a) (mapM h rs)"
proof (induction rs arbitrary: a)
  case Nil
  show ?case by simp
next
  case (Cons r rs)
  show ?case
  proof (cases "h r")
    case None
    then show ?thesis by simp
  next
    case (Some y)
    then show ?thesis
      using Cons.IH [of "g a y"] by (cases "mapM h rs") simp_all
  qed
qed

lemma foldl_merge_scores:
  "getOr (f_scores (foldl mergeSummaryFragments f0 fs)) d [] =
     getOr (f_scores f0) d [] @ concat (map (\<lambda>f. contrib f d) fs)"
  by (induction fs arbitrary: f0) (simp_all add: merge_scores)

lemma foldl_merge_distinct:
  "distinct (map fst (f_scores f0)) \<Longrightarrow>
   distinct (map fst (f_scores (foldl mergeSummaryFragments f0 fs)))"
  by (induction fs arbitrary: f0) (simp_all add: merge_distinct)

lemma extendScores_keys:
  "distinct ks \<Longrightarrow>
   getOr (foldl (\<lambda>scores resultNode.
              aset scores resultNode (getOr scores resultNode [] @ getOr new resultNode []))
            scores ks) d [] =
   getOr scores d [] @ (if d \<in> set ks then getOr new d [] else [])"
proof (induction ks arbitrary: scores)
  case Nil
  show ?case by simp
next
  case (Cons k ks)
  from Cons.prems have "distinct ks" "k \<notin> set ks" by auto
  then show ?case
    using Cons.IH [of "aset scores k (getOr scores k [] @ getOr new k [])"]
    by (auto simp: getOr_aset)
qed

lemma extendSummaryScores_getOr:
  assumes "distinct (map fst new)"
  shows "getOr (extendSummaryScores scores new) d [] = getOr scores d [] @ getOr new d []"
proof -
  have "getOr (extendSummaryScores scores new) d [] =
        getOr scores d [] @ (if d \<in> set (map fst new) then getOr new d [] else [])"
    unfolding extendSummaryScores_def by (rule extendScores_keys [OF assms])
  moreover have "d \<notin> set (map fst new) \<Longrightarrow> getOr new d [] = []"
    by (rule getOr_notin)
  ultimately show ?thesis by auto
qed



lemma fragment_scores_shape:
  assumes "trapiResultToSummaryFragment env canon maxHops r kg = Some f"
  shows "f_scores f = [] \<or> (\<exists>key. f_scores f = [(key, scoreOf r)])"
  using assms
  by (cases rule: fragment_cases)
    (simp_all add: emptySummaryFragment_def makeSummaryFragment_def)

lemma contrib_fragment:
  assumes "trapiResultToSummaryFragment env canon maxHops r kg = Some f" "d \<noteq> ''undefined''"
  shows "contrib f d = map Some (fragmentScores env canon maxHops kg d r)"
  using fragment_scores_shape [OF assms(1)] assms
  by (auto simp: contrib_def fragmentScores_def)

lemma concat_contrib:
  assumes "list_all2 (\<lambda>r f. trapiResultToSummaryFragment env canon maxHops r kg = Some f) rs fs"
    and "d \<noteq> ''undefined''"
  shows "concat (map (\<lambda>f. contrib f d) fs) =
         map Some (concat (map (fragmentScores env canon maxHops kg d) rs))"
  using assms(1)
  by (induction rule: list_all2_induct) (simp_all add: contrib_fragment [OF _ assms(2)])

lemma condensed_scores:
  assumes "creativeAnswersToCondensedSummaries env canon maxHops answers = Some css"
  shows "list_all2 (\<lambda>(a :: answer) cs.
      distinct (map fst (f_scores (cs_fragment cs))) \<and>
      (\<forall>d. d \<noteq> ''undefined'' \<longrightarrow>
         getOr (f_scores (cs_fragment cs)) d [] =
         map Some (concat (map (fragmentScores env canon maxHops
                                  (msg_knowledge_graph (ans_message a)) d)
                             (msg_results (ans_message a)))))) answers css"
proof -
  have "list_all2 (\<lambda>(a :: answer) cs.
      map_option (makeCondensedSummary (ans_agent a))
        (foldM (\<lambda>summaryFragment result.
                  map_option (mergeSummaryFragments summaryFragment)
                    (trapiResultToSummaryFragment env canon maxHops result
                       (msg_knowledge_graph (ans_message a))))
           (msg_results (ans_message a)) emptySummaryFragment) = Some cs) answers css"
    using assms unfolding creativeAnswersToCondensedSummaries_def mapM_Some_iff Let_def .
  then show ?thesis
  proof (rule list_all2_mono)
    fix a :: answer and cs
    let ?kg = "msg_knowledge_graph (ans_message a)"
    assume "map_option (makeCondensedSummary (ans_agent a))
        (foldM (\<lambda>summaryFragment result.
                  map_option (mergeSummaryFragments summaryFragment)
                    (trapiResultToSummaryFragment env canon maxHops result ?kg))
           (msg_results (ans_message a)) emptySummaryFragment) = Some cs"
    then obtain fs where
      fs: "mapM (\<lambda>r. trapiResultToSummaryFragment env canon maxHops r ?kg)
             (msg_results (ans_message a)) = Some fs"
      and cs: "cs_fragment cs = foldl mergeSummaryFragments emptySummaryFragment fs"
      unfolding foldM_map_option by (auto simp: makeCondensedSummary_def)
    have e: "f_scores (emptySummaryFragment :: rat option list summaryFragment) = []"
      by (simp add: emptySummaryFragment_def makeSummaryFragment_def)
    have d: "distinct (map fst (f_scores (cs_fragment cs)))"
      unfolding cs by (rule foldl_merge_distinct) (simp add: e)
    have "\<forall>d. d \<noteq> ''undefined'' \<longrightarrow>
         getOr (f_scores (cs_fragment cs)) d [] =
         map Some (concat (map (fragmentScores env canon maxHops ?kg d)
                             (msg_results (ans_message a))))"
    proof (intro allI impI)
      fix d :: string assume "d \<noteq> ''undefined''"
      from concat_contrib [OF fs [unfolded mapM_Some_iff] this]
      show "getOr (f_scores (cs_fragment cs)) d [] =
         map Some (concat (map (fragmentScores env canon maxHops ?kg d)
                             (msg_results (ans_message a))))"
        unfolding cs foldl_merge_scores by (simp add: e getOr_def)
    qed
    with d show "distinct (map fst (f_scores (cs_fragment cs))) \<and>
      (\<forall>d. d \<noteq> ''undefined'' \<longrightarrow>
         getOr (f_scores (cs_fragment cs)) d [] =
         map Some (concat (map (fragmentScores env canon maxHops
                                  (msg_knowledge_graph (ans_message a)) d)
                             (msg_results (ans_message a)))))"
      by simp
  qed
qed








section \<open>Properties of the summary edges\<close>


lemma isObj_jsonDelete: "isObj (jsonDelete e k) = isObj e"
  by (cases e) (auto simp: isObj_def)

















section \<open>Properties of the publications\<close>











section \<open>Properties of the result paths\<close>

text \<open>
  Claim C8 fails on the code.  \<open>expandResults\<close> sorts the path keys of a result by the
  subgraphs as the merge collected them; afterwards \<open>objRemoveDuplicates\<close> runs over every
  entry of \<open>paths\<close> and removes repeated elements from the subgraphs as well.  In the
  answer \<open>twoPathAnswer\<close> the path over the two aliases of \<open>Y:1\<close> loses one element, and
  the final \<open>paths\<close> list of the result has subgraphs of lengths 7 and 6, in that order.
\<close>

theorem paths_unsorted_after_duplicate_removal:
  "map_option (\<lambda>s. map (\<lambda>r. map (\<lambda>pid. length (finalSubgraph s pid)) (r_paths r)) (s_results s))
     (creativeAnswersToSummary demoEnv 3 ''Q1'' [twoPathAnswer]) = Some [[7, 6]]"
  by code_simp

section \<open>The path finder returns the simple paths\<close>

lemma yields_unfold:
  "{q. yields proc p q} = set (snd (proc p)) \<union> (\<Union>c \<in> set (fst (proc p)). {q. yields proc c q})"
  by (auto intro: yields.intros elim: yields.cases)

lemma rgraphFold_total:
  fixes w :: "'a \<Rightarrow> nat"
  assumes dec: "\<And>p. sum_list (map w (fst (proc p))) < w p"
  shows "\<exists>res'. rgraphFold proc stack res = Some res' \<and>
           set res' = set res \<union> (\<Union>p \<in> set stack. {q. yields proc p q})"
proof (induction "sum_list (map w stack)" arbitrary: stack res rule: less_induct)
  case less
  show ?case
  proof (cases stack)
    case Nil
    then show ?thesis by (simp add: rgraphFold.simps)
  next
    case (Cons p rest)
    let ?stack' = "rev (fst (proc p)) @ rest"
    let ?res' = "res @ snd (proc p)"
    have "sum_list (map w ?stack') = sum_list (map w (fst (proc p))) + sum_list (map w rest)"
      by (simp add: rev_map [symmetric] sum_list_rev)
    also have "\<dots> < w p + sum_list (map w rest)" using dec [of p] by simp
    finally have "sum_list (map w ?stack') < sum_list (map w stack)" by (simp add: Cons)
    from less [OF this, of ?res'] obtain r where
      r: "rgraphFold proc ?stack' ?res' = Some r"
         "set r = set ?res' \<union> (\<Union>p \<in> set ?stack'. {q. yields proc p q})"
      by blast
    have "rgraphFold proc stack res = Some r"
      unfolding Cons by (subst rgraphFold.simps) (simp add: Let_def r(1))
    moreover have "set r = set res \<union> (\<Union>p \<in> set stack. {q. yields proc p q})"
      unfolding r(2) Cons using yields_unfold [of proc p] by auto
    ultimately show ?thesis by blast
  qed
qed

lemma truthy_canonicalNode: "truthy (canonicalNode canon t) \<longleftrightarrow> canonicalNode canon t \<noteq> JFalse"
  by (auto simp: canonicalNode_def split: option.splits)

lemma map_of_length_le:
  "map_of oe n = Some es \<Longrightarrow> length es \<le> outDegree oe"
  unfolding outDegree_def
  by (induction oe) (auto split: if_splits)

lemma outEdgesOf_le: "length (outEdgesOf oe n) \<le> outDegree oe"
  by (auto simp: outEdgesOf_def split: option.splits dest: map_of_length_le)

lemma pathStep_children:
  "fst (pathStep canon oe disease maxLen p) =
     (if maxLen < length p \<or> (p \<noteq> [] \<and> last p = disease) then []
      else map (\<lambda>edge. p @ [fst edge, snd edge])
             (filter (\<lambda>edge. snd edge \<notin> set p \<and> truthy (canonicalNode canon (snd edge)))
                (outEdgesOf oe (last p))))"
  by (simp add: pathStep_def)

lemma pathStep_emits:
  "snd (pathStep canon oe disease maxLen p) =
     (if maxLen < length p then []
      else if p \<noteq> [] \<and> last p = disease then [p] else [])"
  by (simp add: pathStep_def)

lemma sum_list_const_le:
  "(\<And>x. x \<in> set xs \<Longrightarrow> f x = c) \<Longrightarrow> sum_list (map f xs) = length xs * (c :: nat)"
  by (induction xs) auto

lemma pathStep_decreases:
  "sum_list (map (pathWeight oe maxLen) (fst (pathStep canon oe disease maxLen p)))
     < pathWeight oe maxLen p"
proof (cases "maxLen < length p \<or> (p \<noteq> [] \<and> last p = disease)")
  case True
  then show ?thesis by (simp add: pathStep_children pathWeight_def)
next
  case False
  let ?D = "outDegree oe"
  let ?es = "filter (\<lambda>edge. snd edge \<notin> set p \<and> truthy (canonicalNode canon (snd edge)))
                (outEdgesOf oe (last p))"
  let ?cs = "map (\<lambda>edge. p @ [fst edge, snd edge]) ?es"
  from False have len: "length p \<le> maxLen" by simp
  have c: "fst (pathStep canon oe disease maxLen p) = ?cs"
    using False by (auto simp: pathStep_children)
  have "\<And>x. x \<in> set ?cs \<Longrightarrow> pathWeight oe maxLen x = (?D + 1) ^ (maxLen - length p)"
    using len by (auto simp: pathWeight_def)
  then have "sum_list (map (pathWeight oe maxLen) ?cs) = length ?cs * (?D + 1) ^ (maxLen - length p)"
    by (rule sum_list_const_le)
  also have "length ?cs \<le> ?D"
    using outEdgesOf_le [of oe "last p"] length_filter_le [of _ "outEdgesOf oe (last p)"]
    by (simp del: length_filter_le) (meson le_trans length_filter_le)
  then have "length ?cs * (?D + 1) ^ (maxLen - length p) \<le> ?D * (?D + 1) ^ (maxLen - length p)"
    by (rule mult_le_mono1)
  also have "\<dots> < (?D + 1) * (?D + 1) ^ (maxLen - length p)"
    by simp
  also have "\<dots> = (?D + 1) ^ (maxLen - length p + 1)" by simp
  also have "\<dots> \<le> (?D + 1) ^ (maxLen + 2 - length p)"
    by (rule power_increasing) (use len in auto)
  finally show ?thesis unfolding c pathWeight_def .
qed

lemma pathFrom_last_fresh:
  "pathFrom canon adj p rest \<Longrightarrow> rest \<noteq> [] \<Longrightarrow> last (p @ rest) \<notin> set p"
proof (induction canon adj p rest rule: pathFrom.induct)
  case (3 canon adj p e t rest)
  show ?case
  proof (cases "rest = []")
    case True
    with 3 show ?thesis by simp
  next
    case False
    from 3 have "pathFrom canon adj (p @ [e, t]) rest" by simp
    from "3.IH" [OF this False] show ?thesis by simp
  qed
qed simp_all

lemma yields_pathStep_iff:
  assumes adj: "\<And>n e t. (e, t) \<in> set (outEdgesOf oe n) \<longleftrightarrow> adj n e t"
    and "p \<noteq> []"
  shows "yields (pathStep canon oe disease maxLen) p q \<longleftrightarrow>
         (\<exists>rest. q = p @ rest \<and> pathFrom canon adj p rest \<and> last q = disease \<and>
                 length q \<le> maxLen)"
proof
  assume "yields (pathStep canon oe disease maxLen) p q"
  then show "\<exists>rest. q = p @ rest \<and> pathFrom canon adj p rest \<and> last q = disease \<and>
                 length q \<le> maxLen"
    using assms(2)
  proof (induction rule: yields.induct)
    case (here q p)
    then show ?case
      by (auto simp: pathStep_emits split: if_splits)
  next
    case (below c p q)
    from below.hyps(1) obtain e t where
      c: "c = p @ [e, t]" and et: "(e, t) \<in> set (outEdgesOf oe (last p))"
        "t \<notin> set p" "truthy (canonicalNode canon t)"
      by (auto simp: pathStep_children split: if_splits)
    from below.IH obtain rest where
      "q = c @ rest" "pathFrom canon adj c rest" "last q = disease" "length q \<le> maxLen"
      unfolding c by auto
    with c et below.prems show ?case
      by (intro exI [of _ "e # t # rest"]) (simp add: adj truthy_canonicalNode)
  qed
next
  assume "\<exists>rest. q = p @ rest \<and> pathFrom canon adj p rest \<and> last q = disease \<and>
                 length q \<le> maxLen"
  then obtain rest where
    "q = p @ rest" "pathFrom canon adj p rest" "last q = disease" "length q \<le> maxLen"
    by blast
  then show "yields (pathStep canon oe disease maxLen) p q"
    using assms(2)
  proof (induction rest arbitrary: p q rule: induct_list012)
    case 1
    then show ?case
      by (intro yields.here) (simp add: pathStep_emits)
  next
    case (2 x)
    then show ?case by simp
  next
    case (3 e t rest)
    from "3.prems"(2) have
      et: "adj (last p) e t" "t \<notin> set p" "canonicalNode canon t \<noteq> JFalse" and
      pf: "pathFrom canon adj (p @ [e, t]) rest"
      by simp_all
    from pathFrom_last_fresh [OF "3.prems"(2)] "3.prems"(1,3)
    have "disease \<notin> set p" by simp
    with "3.prems"(5) have nd: "last p \<noteq> disease" using last_in_set by metis
    from "3.prems"(1,4) have len: "length p \<le> maxLen" by simp
    have y: "yields (pathStep canon oe disease maxLen) (p @ [e, t]) q"
      by (rule "3.IH"(1) [OF _ pf "3.prems"(3,4)]) (simp_all add: "3.prems"(1))
    have "p @ [e, t] \<in> set (fst (pathStep canon oe disease maxLen p))"
      using et nd len "3.prems"(5) adj [of e t "last p"]
      by (auto simp: pathStep_children truthy_canonicalNode intro!: image_eqI [of _ _ "(e, t)"])
    then show ?case using y by (rule yields.below)
  qed
qed

lemma foldM_prefix_gen:
  assumes "I pre s"
    and "\<And>pre x a. I pre a \<Longrightarrow> x \<in> set xs \<Longrightarrow> \<exists>b. f a x = Some b \<and> I (pre @ [x]) b"
  shows "\<exists>t. foldM f xs s = Some t \<and> I (pre @ xs) t"
  using assms
proof (induction xs arbitrary: pre s)
  case Nil
  then show ?case by simp
next
  case (Cons x xs)
  from Cons.prems(2) [OF Cons.prems(1), of x] obtain b where
    b: "f s x = Some b" "I (pre @ [x]) b" by auto
  have "\<exists>t. foldM f xs b = Some t \<and> I ((pre @ [x]) @ xs) t"
  proof (rule Cons.IH [OF b(2)])
    fix pre' y a assume "I pre' a" "y \<in> set xs"
    then show "\<exists>b. f a y = Some b \<and> I (pre' @ [y]) b"
      using Cons.prems(2) [of pre' a y] by simp
  qed
  with b(1) show ?case by simp
qed

lemma foldM_prefix:
  assumes "I [] s"
    and "\<And>pre x a. I pre a \<Longrightarrow> x \<in> set xs \<Longrightarrow> \<exists>b. f a x = Some b \<and> I (pre @ [x]) b"
  shows "\<exists>t. foldM f xs s = Some t \<and> I xs t"
  using foldM_prefix_gen [of I "[]" s xs f, OF assms] by simp

lemma filterM_Some:
  "filterM p xs = Some ys \<Longrightarrow> set ys \<subseteq> set xs \<and> (\<forall>x \<in> set xs. p x \<noteq> None)"
proof (induction xs arbitrary: ys)
  case Nil
  then show ?case by simp
next
  case (Cons x xs)
  from Cons.prems obtain b zs where
    b: "p x = Some b" and zs: "filterM p xs = Some zs" and ys: "ys = (if b then x # zs else zs)"
    by (cases "p x"; cases "filterM p xs") auto
  from Cons.IH [OF zs] b ys show ?case by auto
qed

lemma redgeToTrapiKedge_typed:
  "map_of (kg_edges kg) e = Some k \<Longrightarrow> redgeToTrapiKedge e kg = Some (kedgeObj k)"
  by (simp add: redgeToTrapiKedge_def)

lemma kedgeSubject_typed: "Option.bind (kedgeSubject (kedgeObj k)) asStr = Some (edge_subject k)"
  by (simp add: kedgeSubject_def jsonGetReq_def kedgeObj_def)

lemma kedgeObject_typed: "Option.bind (kedgeObject (kedgeObj k)) asStr = Some (edge_object k)"
  by (simp add: kedgeObject_def jsonGetReq_def kedgeObj_def)

lemma makeRgraph_edges_known:
  assumes "makeRgraph env rnodes redges kg = Some (Some rg)"
  shows "\<forall>e \<in> set (rg_edges rg). map_of (kg_edges kg) e \<noteq> None"
proof -
  let ?p = "\<lambda>redge. case redgeToTrapiKedge redge kg of
                              None \<Rightarrow> None
                            | Some kedge \<Rightarrow>
                                (case kedgePredicate kedge of
                                   None \<Rightarrow> None
                                 | Some p \<Rightarrow> biolinkPredicateOf env p)"
  from assms have f: "filterM ?p redges = Some (rg_edges rg)"
    by (auto simp: makeRgraph_def split: if_splits option.splits)
  from filterM_Some [OF f] have "\<forall>e \<in> set (rg_edges rg). ?p e \<noteq> None" by blast
  then show ?thesis
    by (auto simp: redgeToTrapiKedge_def split: option.splits)
qed

lemma makeRedgeToEdgeId_total:
  assumes "\<forall>e \<in> set (rg_edges rg). map_of (kg_edges kg) e \<noteq> None"
  shows "\<exists>m. makeRedgeToEdgeId rg kg = Some m \<and>
           (\<forall>e \<in> set (rg_edges rg).
              map_of m e = map_option (\<lambda>k. (edge_subject k, edge_object k)) (map_of (kg_edges kg) e))"
proof -
  let ?I = "\<lambda>pre m. \<forall>e \<in> set pre.
              map_of m e = map_option (\<lambda>k. (edge_subject k, edge_object k)) (map_of (kg_edges kg) e)"
  let ?f = "\<lambda>redgeToEdgeId redge.
              case redgeToTrapiKedge redge kg of
                None \<Rightarrow> None
              | Some kedge \<Rightarrow>
                  (case Option.bind (kedgeSubject kedge) asStr of
                     None \<Rightarrow> None
                   | Some s \<Rightarrow>
                       (case Option.bind (kedgeObject kedge) asStr of
                          None \<Rightarrow> None
                        | Some ob \<Rightarrow> Some (aset redgeToEdgeId redge (s, ob))))"
  have "\<exists>t. foldM ?f (rg_edges rg) [] = Some t \<and> ?I (rg_edges rg) t"
  proof (rule foldM_prefix)
    show "?I [] []" by simp
  next
    fix pre x a assume I: "?I pre a" and x: "x \<in> set (rg_edges rg)"
    with assms obtain k where k: "map_of (kg_edges kg) x = Some k" by auto
    have "?f a x = Some (aset a x (edge_subject k, edge_object k))"
      by (simp add: redgeToTrapiKedge_typed [OF k] kedgeSubject_typed kedgeObject_typed)
    moreover have "?I (pre @ [x]) (aset a x (edge_subject k, edge_object k))"
      using I k by (auto simp: map_of_aset)
    ultimately show "\<exists>b. ?f a x = Some b \<and> ?I (pre @ [x]) b" by blast
  qed
  then show ?thesis by (simp add: makeRedgeToEdgeId_def)
qed

lemma outEdgesOf_update:
  "outEdgesOf (updateOutEdges m a v) n = (if n = a then outEdgesOf m a @ [v] else outEdgesOf m n)"
  by (simp add: outEdgesOf_def updateOutEdges_def map_of_aset)

lemma connects_joins: "connects kg rg n e t \<longleftrightarrow> e \<in> set (rg_edges rg) \<and> joins kg n e t"
  by (simp add: connects_def)

lemma makeRnodeToOutEdges_total:
  assumes "\<forall>e \<in> set (rg_edges rg). map_of (kg_edges kg) e \<noteq> None"
  shows "\<exists>oe. makeRnodeToOutEdges rg kg = Some oe \<and>
           (\<forall>n e t. (e, t) \<in> set (outEdgesOf oe n) \<longleftrightarrow> connects kg rg n e t)"
proof -
  from makeRedgeToEdgeId_total [OF assms] obtain m where
    m: "makeRedgeToEdgeId rg kg = Some m" and
    mm: "\<forall>e \<in> set (rg_edges rg).
              map_of m e = map_option (\<lambda>k. (edge_subject k, edge_object k)) (map_of (kg_edges kg) e)"
    by blast
  let ?I = "\<lambda>pre oe. \<forall>n e t. (e, t) \<in> set (outEdgesOf oe n) \<longleftrightarrow> e \<in> set pre \<and> joins kg n e t"
  let ?f = "\<lambda>rnodeToOutEdges redge.
                   case map_of m redge of
                     None \<Rightarrow> None
                   | Some (s, ob) \<Rightarrow>
                       Some (updateOutEdges (updateOutEdges rnodeToOutEdges s (redge, ob))
                               ob (redge, s))"
  have "\<exists>t. foldM ?f (rg_edges rg) [] = Some t \<and> ?I (rg_edges rg) t"
  proof (rule foldM_prefix)
    show "?I [] []" by (simp add: outEdgesOf_def)
  next
    fix pre x a assume I: "?I pre a" and x: "x \<in> set (rg_edges rg)"
    with assms obtain k where k: "map_of (kg_edges kg) x = Some k" by auto
    with mm x have mx: "map_of m x = Some (edge_subject k, edge_object k)" by simp
    let ?b = "updateOutEdges (updateOutEdges a (edge_subject k) (x, edge_object k))
                (edge_object k) (x, edge_subject k)"
    have "?f a x = Some ?b" by (simp add: mx)
    moreover have "?I (pre @ [x]) ?b"
    proof (intro allI)
      fix n e t
      have jx: "joins kg n x t \<longleftrightarrow> (edge_subject k = n \<and> edge_object k = t) \<or>
                   (edge_object k = n \<and> edge_subject k = t)"
        by (simp add: joins_def k)
      have old: "(e, t) \<in> set (outEdgesOf a n) \<longleftrightarrow> e \<in> set pre \<and> joins kg n e t"
        using I by blast
      show "(e, t) \<in> set (outEdgesOf ?b n) \<longleftrightarrow> e \<in> set (pre @ [x]) \<and> joins kg n e t"
        using jx old I by (auto simp: outEdgesOf_update)
    qed
    ultimately show "\<exists>b. ?f a x = Some b \<and> ?I (pre @ [x]) b" by blast
  qed
  then show ?thesis by (simp add: makeRnodeToOutEdges_def m connects_joins)
qed

lemma findPaths_total:
  assumes adj: "\<And>n e t. (e, t) \<in> set (outEdgesOf oe n) \<longleftrightarrow> adj n e t"
  shows "\<exists>ps. findPaths canon oe drug disease maxHops = Some ps \<and>
           set ps = {q. simplePath canon adj drug q \<and> last q = disease \<and>
                        length q \<le> 2 * maxHops + 1}"
proof -
  let ?proc = "pathStep canon oe disease (2 * maxHops + 1)"
  from rgraphFold_total [of "pathWeight oe (2 * maxHops + 1)" ?proc "[[drug]]" "[]",
      OF pathStep_decreases]
  obtain ps where ps: "rgraphFold ?proc [[drug]] [] = Some ps"
    and s: "set ps = {q. yields ?proc [drug] q}"
    by auto
  have "yields ?proc [drug] q \<longleftrightarrow>
          simplePath canon adj drug q \<and> last q = disease \<and> length q \<le> 2 * maxHops + 1" for q
    using yields_pathStep_iff [of oe adj "[drug]" canon disease "2 * maxHops + 1" q, OF adj]
    by (cases q) (auto simp: simplePath_def)
  with ps s show ?thesis by (simp add: findPaths_def)
qed

text \<open>
  Claim C2.  For a result whose result graph exists and whose \<open>sn\<close> and \<open>on\<close> keys are bound
  to non-empty ids, the path finder returns, and the paths it returns are exactly the simple
  paths of the result graph that start at the drug binding, end at the disease binding and
  have at most \<open>2 * maxHops + 1\<close> elements; in a simple path every extension target is not
  already in the path and has a canonical node other than \<open>false\<close>.
\<close>

theorem path_finder_exact:
  assumes "trapiResultToRgraph env r kg = Some (Some rg)"
    and "getBindingId (node_bindings r) subjectKey = Some (JStr drug)" and "drug \<noteq> []"
    and "getBindingId (node_bindings r) objectKey = Some (JStr disease)" and "disease \<noteq> []"
  shows "\<exists>ps. resultPaths env canon maxHops r kg = Some (Some (rg, drug, ps)) \<and>
           set ps = {q. simplePath canon (connects kg rg) drug q \<and> last q = disease \<and>
                        length q \<le> 2 * maxHops + 1}"
proof -
  from assms(1) have "\<forall>e \<in> set (rg_edges rg). map_of (kg_edges kg) e \<noteq> None"
    unfolding trapiResultToRgraph_def by (rule makeRgraph_edges_known)
  from makeRnodeToOutEdges_total [OF this] obtain oe where
    oe: "makeRnodeToOutEdges rg kg = Some oe" and
    adj: "\<And>n e t. (e, t) \<in> set (outEdgesOf oe n) \<longleftrightarrow> connects kg rg n e t"
    by blast
  from findPaths_total [of oe "connects kg rg" canon drug disease maxHops, OF adj]
  obtain ps where "findPaths canon oe drug disease maxHops = Some ps"
    "set ps = {q. simplePath canon (connects kg rg) drug q \<and> last q = disease \<and>
                        length q \<le> 2 * maxHops + 1}"
    by blast
  with assms oe show ?thesis
    by (simp add: resultPaths_def)
qed

theorem path_finder_exact_witness:
  "trapiResultToRgraph demoEnv twoPathResult twoPathGraph = Some (Some twoPathRgraph) \<and>
   getBindingId (node_bindings twoPathResult) subjectKey = Some (JStr ''CHEBI:1'') \<and>
   getBindingId (node_bindings twoPathResult) objectKey = Some (JStr ''MONDO:1'') \<and>
   {q. simplePath twoPathCanon (connects twoPathGraph twoPathRgraph) ''CHEBI:1'' q \<and>
       last q = ''MONDO:1'' \<and> length q \<le> 2 * 3 + 1} =
   {[''CHEBI:1'', ''e4'', ''A:1'', ''e5'', ''B:1'', ''e6'', ''MONDO:1''],
    [''CHEBI:1'', ''e1'', ''X:1'', ''e2'', ''Y:1'', ''e3'', ''MONDO:1'']}"
proof -
  have g: "trapiResultToRgraph demoEnv twoPathResult twoPathGraph = Some (Some twoPathRgraph)"
    by code_simp
  have s: "getBindingId (node_bindings twoPathResult) subjectKey = Some (JStr ''CHEBI:1'')"
    by code_simp
  have t: "getBindingId (node_bindings twoPathResult) objectKey = Some (JStr ''MONDO:1'')"
    by code_simp
  have run: "resultPaths demoEnv twoPathCanon 3 twoPathResult twoPathGraph =
      Some (Some (twoPathRgraph, ''CHEBI:1'',
        [[''CHEBI:1'', ''e4'', ''A:1'', ''e5'', ''B:1'', ''e6'', ''MONDO:1''],
         [''CHEBI:1'', ''e1'', ''X:1'', ''e2'', ''Y:1'', ''e3'', ''MONDO:1'']]))"
    by code_simp
  from path_finder_exact [OF g s _ t, of twoPathCanon 3] run
  have "{q. simplePath twoPathCanon (connects twoPathGraph twoPathRgraph) ''CHEBI:1'' q \<and>
       last q = ''MONDO:1'' \<and> length q \<le> 2 * 3 + 1} =
     set [[''CHEBI:1'', ''e4'', ''A:1'', ''e5'', ''B:1'', ''e6'', ''MONDO:1''],
         [''CHEBI:1'', ''e1'', ''X:1'', ''e2'', ''Y:1'', ''e3'', ''MONDO:1'']]"
    by auto
  with g s t show ?thesis by simp
qed

section \<open>Results that cannot be bound are skipped\<close>

lemma filterM_total: "(\<forall>x \<in> set xs. p x \<noteq> None) \<Longrightarrow> \<exists>ys. filterM p xs = Some ys"
proof (induction xs)
  case Nil
  show ?case by simp
next
  case (Cons x xs)
  then obtain b ys where "p x = Some b" "filterM p xs = Some ys" by auto
  then show ?case by simp
qed

lemma makeRgraph_absent_node:
  assumes "\<exists>n \<in> set rnodes. map_of (kg_nodes kg) n = None"
  shows "makeRgraph env rnodes redges kg = Some None"
  using assms by (simp add: makeRgraph_def)

lemma makeRgraph_returns:
  assumes "\<forall>e \<in> set redges. map_of (kg_edges kg) e \<noteq> None"
  shows "\<exists>g. makeRgraph env rnodes redges kg = Some g"
proof -
  let ?p = "\<lambda>redge. case redgeToTrapiKedge redge kg of
                              None \<Rightarrow> None
                            | Some kedge \<Rightarrow>
                                (case kedgePredicate kedge of
                                   None \<Rightarrow> None
                                 | Some p \<Rightarrow> biolinkPredicateOf env p)"
  have "\<forall>e \<in> set redges. ?p e \<noteq> None"
  proof
    fix e assume "e \<in> set redges"
    with assms obtain k where k: "map_of (kg_edges kg) e = Some k" by auto
    show "?p e \<noteq> None"
      by (simp add: redgeToTrapiKedge_typed [OF k] kedgePredicate_typed biolinkPredicateOf_def)
  qed
  from filterM_total [OF this] obtain es where "filterM ?p redges = Some es" by blast
  then show ?thesis by (simp add: makeRgraph_def)
qed

lemma getBindingId_cases:
  "map_of nb key \<noteq> Some [] \<Longrightarrow>
   (map_of nb key = None \<and> getBindingId nb key = Some JFalse) \<or>
   (\<exists>b. map_of nb key \<noteq> None \<and> getBindingId nb key = Some (JStr b))"
  by (auto simp: getBindingId_def split: option.splits list.splits)

lemma unbindable_resultPaths:
  assumes "unbindable r kg"
  shows "resultPaths env canon maxHops r kg = Some None"
proof (cases "\<exists>n \<in> set (flattenBindings (node_bindings r)). map_of (kg_nodes kg) n = None")
  case True
  then have "trapiResultToRgraph env r kg = Some None"
    unfolding trapiResultToRgraph_def by (rule makeRgraph_absent_node)
  then show ?thesis by (simp add: resultPaths_def)
next
  case False
  with assms have
    k: "map_of (node_bindings r) subjectKey = None \<or> map_of (node_bindings r) objectKey = None"
    and e: "\<forall>e \<in> set (flattenBindings (edge_bindings r)). map_of (kg_edges kg) e \<noteq> None"
    and s: "map_of (node_bindings r) subjectKey \<noteq> Some []"
    and t: "map_of (node_bindings r) objectKey \<noteq> Some []"
    by (auto simp: unbindable_def)
  from makeRgraph_returns [OF e] obtain g where
    g: "trapiResultToRgraph env r kg = Some g"
    unfolding trapiResultToRgraph_def by blast
  show ?thesis
  proof (cases g)
    case None
    with g show ?thesis by (simp add: resultPaths_def)
  next
    case (Some rg)
    from getBindingId_cases [OF s] getBindingId_cases [OF t] k
    obtain drug disease where
      "getBindingId (node_bindings r) subjectKey = Some drug"
      "getBindingId (node_bindings r) objectKey = Some disease"
      "\<not> truthy drug \<or> \<not> truthy disease"
      by auto
    with g Some show ?thesis by (simp add: resultPaths_def)
  qed
qed

lemma unbindable_empty:
  assumes "unbindable r kg"
  shows "trapiResultToSummaryFragment env canon maxHops r kg = Some emptySummaryFragment"
  by (simp add: trapiResultToSummaryFragment_def unbindable_resultPaths [OF assms])

lemma mapM_append:
  "mapM f (xs @ ys) =
     (case mapM f xs of None \<Rightarrow> None | Some a \<Rightarrow> map_option ((@) a) (mapM f ys))"
proof (induction xs)
  case Nil
  show ?case by (cases "mapM f ys") simp_all
next
  case (Cons x xs)
  then show ?case
    by (cases "f x"; cases "mapM f xs"; cases "mapM f ys") simp_all
qed

lemma mapM_insert:
  assumes "f b = Some e" and "mapM f (xs @ ys) = Some zs"
  shows "\<exists>us vs. zs = us @ vs \<and> mapM f (xs @ b # ys) = Some (us @ e # vs)"
proof -
  from assms(2) obtain us vs where
    "mapM f xs = Some us" "mapM f ys = Some vs" "zs = us @ vs"
    by (auto simp: mapM_append split: option.splits)
  with assms(1) show ?thesis
    by (intro exI [of _ us] exI [of _ vs]) (simp add: mapM_append)
qed

lemma merge_paths: "f_paths (mergeSummaryFragments f1 f2) = f_paths f1 @ f_paths f2"
  by (simp add: mergeSummaryFragments_def Let_def)

lemma merge_nodes: "f_nodes (mergeSummaryFragments f1 f2) = f_nodes f1 @ f_nodes f2"
  by (simp add: mergeSummaryFragments_def Let_def)

lemma merge_edges: "f_edges (mergeSummaryFragments f1 f2) = f_edges f1 @ f_edges f2"
  by (simp add: mergeSummaryFragments_def Let_def)

lemma foldl_merge_paths:
  "f_paths (foldl mergeSummaryFragments f0 fs) = f_paths f0 @ concat (map f_paths fs)"
  by (induction fs arbitrary: f0) (simp_all add: merge_paths)

lemma foldl_merge_nodes:
  "f_nodes (foldl mergeSummaryFragments f0 fs) = f_nodes f0 @ concat (map f_nodes fs)"
  by (induction fs arbitrary: f0) (simp_all add: merge_nodes)

lemma foldl_merge_edges:
  "f_edges (foldl mergeSummaryFragments f0 fs) = f_edges f0 @ concat (map f_edges fs)"
  by (induction fs arbitrary: f0) (simp_all add: merge_edges)

lemma empty_fields:
  "f_paths emptySummaryFragment = []" "f_nodes emptySummaryFragment = []"
  "f_edges emptySummaryFragment = []" "f_scores emptySummaryFragment = []"
  by (simp_all add: emptySummaryFragment_def makeSummaryFragment_def)

lemma contrib_empty: "d \<noteq> ''undefined'' \<Longrightarrow> contrib emptySummaryFragment d = []"
  by (simp add: contrib_def empty_fields)

lemma condensedAgree_insert:
  "condensedAgree
     (makeCondensedSummary ag
        (foldl mergeSummaryFragments emptySummaryFragment (us @ emptySummaryFragment # vs)))
     (makeCondensedSummary ag (foldl mergeSummaryFragments emptySummaryFragment (us @ vs)))"
  unfolding condensedAgree_def agreeOffUndefined_def makeCondensedSummary_def
  by (simp add: foldl_merge_paths foldl_merge_nodes foldl_merge_edges foldl_merge_scores
      foldl_merge_distinct empty_fields contrib_empty del: foldl_append foldl_Cons)

lemma condensedAgree_refl:
  "distinct (map fst (f_scores (cs_fragment c))) \<Longrightarrow> condensedAgree c c"
  by (simp add: condensedAgree_def agreeOffUndefined_def)

lemma mergeCondensedSummary_agree:
  assumes c: "condensedAgree c c'" and m: "mergedAgree m m'"
    and n': "mergeCondensedSummary env m' c' = Some n'"
  shows "\<exists>n. mergeCondensedSummary env m c = Some n \<and> mergedAgree n n'"
proof -
  from n' obtain newResults newPaths nodes edges where
    s: "fragmentPathsToResultsAndPaths env (f_paths (cs_fragment c')) = Some (newResults, newPaths)"
       "extendSummaryNodes (m_nodes m') (f_nodes (cs_fragment c')) (cs_agent c') = Some nodes"
       "extendSummaryEdges (m_edges m') (f_edges (cs_fragment c')) (cs_agent c') = Some edges"
    and n'_def: "n' = \<lparr>m_results = extendSummaryResults (m_results m') newResults,
                          m_paths = extendSummaryPaths (m_paths m') newPaths (cs_agent c'),
                          m_nodes = nodes,
                          m_edges = edges,
                          m_scores = extendSummaryScores (m_scores m')
                                       (f_scores (cs_fragment c'))\<rparr>"
    by (auto simp: mergeCondensedSummary_def split: option.splits)
  let ?n = "\<lparr>m_results = extendSummaryResults (m_results m) newResults,
                          m_paths = extendSummaryPaths (m_paths m) newPaths (cs_agent c),
                          m_nodes = nodes,
                          m_edges = edges,
                          m_scores = extendSummaryScores (m_scores m)
                                       (f_scores (cs_fragment c))\<rparr>"
  from c m s have "mergeCondensedSummary env m c = Some ?n"
    by (simp add: mergeCondensedSummary_def condensedAgree_def mergedAgree_def)
  moreover have "agreeOffUndefined (extendSummaryScores (m_scores m) (f_scores (cs_fragment c)))
           (extendSummaryScores (m_scores m') (f_scores (cs_fragment c')))"
    using c m
    by (simp add: agreeOffUndefined_def condensedAgree_def mergedAgree_def
        extendSummaryScores_getOr)
  ultimately show ?thesis
    using c m by (simp add: n'_def mergedAgree_def condensedAgree_def)
qed

lemma foldM_merge_agree:
  assumes "list_all2 condensedAgree cs cs'" and "mergedAgree m m'"
    and "foldM (mergeCondensedSummary env) cs' m' = Some n'"
  shows "\<exists>n. foldM (mergeCondensedSummary env) cs m = Some n \<and> mergedAgree n n'"
  using assms
proof (induction arbitrary: m m' rule: list_all2_induct)
  case Nil
  then show ?case by simp
next
  case (Cons c cs c' cs')
  from Cons.prems(2) obtain k' where
    k': "mergeCondensedSummary env m' c' = Some k'" "foldM (mergeCondensedSummary env) cs' k' = Some n'"
    by (cases "mergeCondensedSummary env m' c'") simp_all
  from mergeCondensedSummary_agree [OF Cons.hyps(1) Cons.prems(1) k'(1)] obtain k where
    k: "mergeCondensedSummary env m c = Some k" "mergedAgree k k'" by blast
  from Cons.IH [OF k(2) k'(2)] k(1) show ?case by simp
qed

lemma bind_meanScore:
  "Option.bind (map_of scores k) (meanScore env) = meanScore env (getOr scores k [])"
  by (cases "map_of scores k") (simp_all add: getOr_def meanScore_def)

lemma toStr_undefined: "toStr j = Some ''undefined'' \<Longrightarrow> j = JStr ''undefined''"
  by (cases j) simp_all

lemma expandResult_agree:
  assumes "expandResult env paths nodes scores' ps = Some r"
    and "r_subject r \<noteq> JStr ''undefined''"
    and "agreeOffUndefined scores scores'"
  shows "expandResult env paths nodes scores ps = Some r"
proof -
  from assms(1) obtain pid rest where ps: "ps = pid # rest"
    by (cases ps) (simp_all add: expandResult_def)
  from assms(1) ps obtain drug subgraph where
    sg: "getPathFromPid paths pid = Some (drug # subgraph)"
    by (cases "getPathFromPid paths pid"; cases "the (getPathFromPid paths pid)")
       (simp_all add: expandResult_def)
  from assms(1) ps sg obtain d where d: "toStr drug = Some d"
    by (cases "toStr drug") (simp_all add: expandResult_def)
  have subj: "r_subject r = drug"
    using assms(1) ps sg d
    by (auto simp: expandResult_def split: option.splits json.splits)
  with assms(2) d have "d \<noteq> ''undefined''"
    using toStr_undefined by blast
  with assms(3) have "getOr scores d [] = getOr scores' d []"
    by (simp add: agreeOffUndefined_def)
  then have "Option.bind (map_of scores d) (meanScore env) =
      Option.bind (map_of scores' d) (meanScore env)"
    by (simp add: bind_meanScore)
  with assms(1) ps sg d show ?thesis
    by (auto simp: expandResult_def split: option.splits json.splits)
qed

lemma expandResults_agree:
  assumes "expandResults env results paths nodes scores' = Some rs"
    and "\<forall>r \<in> set rs. r_subject r \<noteq> JStr ''undefined''"
    and "agreeOffUndefined scores scores'"
  shows "expandResults env results paths nodes scores = Some rs"
proof -
  from assms(1) have "list_all2 (\<lambda>ps r. expandResult env paths nodes scores' ps = Some r) results rs"
    by (simp add: expandResults_def mapM_Some_iff)
  then have "list_all2 (\<lambda>ps r. expandResult env paths nodes scores ps = Some r) results rs"
    using assms(2)
  proof (induction rule: list_all2_induct)
    case Nil
    show ?case by simp
  next
    case (Cons ps pss r rs)
    then show ?case by (simp add: expandResult_agree [OF _ _ assms(3)])
  qed
  then show ?thesis by (simp add: expandResults_def mapM_Some_iff)
qed

lemma list_all2_same_set: "(\<forall>x \<in> set xs. R x x) \<Longrightarrow> list_all2 R xs xs"
  by (induction xs) simp_all

lemma condensed_distinct:
  assumes "creativeAnswersToCondensedSummaries env canon maxHops answers = Some css"
  shows "\<forall>c \<in> set css. distinct (map fst (f_scores (cs_fragment c)))"
proof -
  have "list_all2 (\<lambda>(a :: answer) c. distinct (map fst (f_scores (cs_fragment c)))) answers css"
    by (rule list_all2_mono [OF condensed_scores [OF assms]]) simp
  then show ?thesis
    by (induction rule: list_all2_induct) simp_all
qed

lemma mapM_split:
  assumes "mapM G (as1 @ a # as2) = Some cs"
  shows "\<exists>cs1 c cs2. mapM G as1 = Some cs1 \<and> G a = Some c \<and> mapM G as2 = Some cs2 \<and>
           cs = cs1 @ c # cs2"
  using assms by (auto simp: mapM_append split: option.splits)

lemma mapM_join:
  assumes "mapM G as1 = Some cs1" "G a = Some c" "mapM G as2 = Some cs2"
  shows "mapM G (as1 @ a # as2) = Some (cs1 @ c # cs2)"
  using assms by (simp add: mapM_append)

lemma condensed_insert:
  fixes kg :: kgraph and as1 as2 :: "answer list"
  assumes bad: "trapiResultToSummaryFragment env canon maxHops bad kg = Some emptySummaryFragment"
    and css': "creativeAnswersToCondensedSummaries env canon maxHops
        (as1 @ \<lparr>ans_agent = ag, ans_message =
                  \<lparr>msg_knowledge_graph = kg, msg_results = rs1 @ rs2\<rparr>\<rparr> # as2) = Some css'"
  shows "\<exists>css. creativeAnswersToCondensedSummaries env canon maxHops
        (as1 @ \<lparr>ans_agent = ag, ans_message =
                  \<lparr>msg_knowledge_graph = kg, msg_results = rs1 @ bad # rs2\<rparr>\<rparr> # as2) = Some css \<and>
      list_all2 condensedAgree css css'"
proof -
  let ?frag = "\<lambda>r. trapiResultToSummaryFragment env canon maxHops r kg"
  let ?G = "\<lambda>a :: answer. map_option (makeCondensedSummary (ans_agent a))
        (foldM (\<lambda>summaryFragment result.
                  map_option (mergeSummaryFragments summaryFragment)
                    (trapiResultToSummaryFragment env canon maxHops result
                       (msg_knowledge_graph (ans_message a))))
           (msg_results (ans_message a)) emptySummaryFragment)"
  let ?a' = "\<lparr>ans_agent = ag, ans_message =
                  \<lparr>msg_knowledge_graph = kg, msg_results = rs1 @ rs2\<rparr>\<rparr>"
  let ?a = "\<lparr>ans_agent = ag, ans_message =
                  \<lparr>msg_knowledge_graph = kg, msg_results = rs1 @ bad # rs2\<rparr>\<rparr>"
  have def: "\<And>answers. creativeAnswersToCondensedSummaries env canon maxHops answers = mapM ?G answers"
    by (simp add: creativeAnswersToCondensedSummaries_def Let_def)
  from css' have "mapM ?G (as1 @ ?a' # as2) = Some css'" unfolding def .
  from mapM_split [OF this] obtain cs1 c' cs2 where
    p: "mapM ?G as1 = Some cs1" "?G ?a' = Some c'" "mapM ?G as2 = Some cs2"
    and css'_eq: "css' = cs1 @ c' # cs2"
    by blast
  from p(2) obtain fs' where
    fs': "mapM ?frag (rs1 @ rs2) = Some fs'"
    and c': "c' = makeCondensedSummary ag (foldl mergeSummaryFragments emptySummaryFragment fs')"
    by (auto simp: foldM_map_option)
  from mapM_insert [of ?frag bad, OF bad fs'] obtain us vs where
    uv: "fs' = us @ vs" "mapM ?frag (rs1 @ bad # rs2) = Some (us @ emptySummaryFragment # vs)"
    by blast
  let ?c = "makeCondensedSummary ag
        (foldl mergeSummaryFragments emptySummaryFragment (us @ emptySummaryFragment # vs))"
  have Ga: "?G ?a = Some ?c"
    by (simp add: foldM_map_option uv(2))
  have css: "creativeAnswersToCondensedSummaries env canon maxHops (as1 @ ?a # as2) =
      Some (cs1 @ ?c # cs2)"
    unfolding def using p(1) Ga p(3) by (rule mapM_join)
  have d: "\<forall>c \<in> set css'. distinct (map fst (f_scores (cs_fragment c)))"
    by (rule condensed_distinct [OF css'])
  have r1: "list_all2 condensedAgree cs1 cs1" and r2: "list_all2 condensedAgree cs2 cs2"
    using d unfolding css'_eq
    by (auto intro!: list_all2_same_set condensedAgree_refl)
  have "condensedAgree ?c c'"
    unfolding c' uv(1) by (rule condensedAgree_insert)
  with r1 r2 have "list_all2 condensedAgree (cs1 @ ?c # cs2) css'"
    unfolding css'_eq by (simp add: list_all2_appendI)
  with css show ?thesis by blast
qed

lemma summary_agree:
  assumes agree: "list_all2 condensedAgree css css'"
    and s: "condensedSummariesToSummary env qid css' = Some s"
    and u: "\<forall>r \<in> set (s_results s). r_subject r \<noteq> JStr ''undefined''"
  shows "condensedSummariesToSummary env qid css = Some s"
proof -
  from s obtain m' where m': "mergeCondensedSummaries env css' = Some m'"
    by (cases "mergeCondensedSummaries env css'") (simp_all add: condensedSummariesToSummary_def)
  let ?m0 = "\<lparr>m_results = [], m_paths = [], m_nodes = [], m_edges = [], m_scores = []\<rparr>"
  have "mergedAgree ?m0 ?m0" by (simp add: mergedAgree_def agreeOffUndefined_def)
  from foldM_merge_agree [OF agree this m' [unfolded mergeCondensedSummaries_def]]
  obtain m where m: "mergeCondensedSummaries env css = Some m" and mm: "mergedAgree m m'"
    by (auto simp: mergeCondensedSummaries_def)
  from s m' obtain edges publications where
    ep: "Option.bind (cleanEdges env (m_edges m')) (edgesToEdgesAndPublications env) =
          Some (edges, publications)"
    by (cases "Option.bind (cleanEdges env (m_edges m')) (edgesToEdgesAndPublications env)")
       (auto simp: condensedSummariesToSummary_def)
  from s m' ep obtain nodes where nodes: "finishNodes (m_nodes m') = Some nodes"
    by (cases "finishNodes (m_nodes m')") (simp_all add: condensedSummariesToSummary_def)
  from s m' ep nodes obtain results where
    results: "expandResults env (map (\<lambda>kv. setOf (snd kv)) (m_results m'))
                                (m_paths m') nodes (m_scores m') = Some results"
    by (cases "expandResults env (map (\<lambda>kv. setOf (snd kv)) (m_results m'))
                                (m_paths m') nodes (m_scores m')")
       (simp_all add: condensedSummariesToSummary_def)
  from s m' ep nodes results have sr: "s_results s = results"
    by (auto simp: condensedSummariesToSummary_def)
  from mm have sc: "agreeOffUndefined (m_scores m) (m_scores m')" by (simp add: mergedAgree_def)
  have results2: "expandResults env (map (\<lambda>kv. setOf (snd kv)) (m_results m'))
                                (m_paths m') nodes (m_scores m) = Some results"
    by (rule expandResults_agree [OF results _ sc]) (use u sr in simp)
  have agents: "map cs_agent css = map cs_agent css'"
    using agree by (induction rule: list_all2_induct) (simp_all add: condensedAgree_def)
  from s m' ep nodes results
  have "Some s = Some \<lparr>s_meta = makeMetadataObject qid (map cs_agent css'),
                                   s_results = results,
                                   s_paths = map (\<lambda>kv. (fst kv, dedupPath (snd kv))) (m_paths m'),
                                   s_nodes = nodes,
                                   s_edges = edges,
                                   s_publications = publications\<rparr>"
    by (simp add: condensedSummariesToSummary_def)
  moreover from mm have f: "m_results m = m_results m'" "m_paths m = m_paths m'"
    "m_nodes m = m_nodes m'" "m_edges m = m_edges m'"
    by (simp_all add: mergedAgree_def)
  ultimately show ?thesis
    using m ep nodes results2 agents
    by (simp add: condensedSummariesToSummary_def f)
qed

text \<open>
  Claim C5, as amended.  A result that binds a node absent from the knowledge graph, or that
  lacks the key \<open>sn\<close> or \<open>on\<close> while its edge bindings are edges of the knowledge graph and
  neither key is bound to an empty list, yields the empty fragment; and the final summary of
  a message with such a result is the summary of the message without it, when no result of
  that summary has the drug key \<open>undefined\<close>.
\<close>

theorem unbindable_result_skipped:
  fixes kg :: kgraph and as1 as2 :: "answer list"
  assumes bad: "unbindable bad kg"
    and s: "creativeAnswersToSummary env maxHops qid
        (as1 @ \<lparr>ans_agent = ag, ans_message =
                  \<lparr>msg_knowledge_graph = kg, msg_results = rs1 @ rs2\<rparr>\<rparr> # as2) = Some s"
    and u: "\<forall>r \<in> set (s_results s). r_subject r \<noteq> JStr ''undefined''"
  shows "(\<forall>canon. trapiResultToSummaryFragment env canon maxHops bad kg =
            Some emptySummaryFragment) \<and>
         creativeAnswersToSummary env maxHops qid
        (as1 @ \<lparr>ans_agent = ag, ans_message =
                  \<lparr>msg_knowledge_graph = kg, msg_results = rs1 @ bad # rs2\<rparr>\<rparr> # as2) = Some s"
proof
  show "\<forall>canon. trapiResultToSummaryFragment env canon maxHops bad kg = Some emptySummaryFragment"
    using unbindable_empty [OF bad] by blast
next
  let ?a' = "\<lparr>ans_agent = ag, ans_message =
                  \<lparr>msg_knowledge_graph = kg, msg_results = rs1 @ rs2\<rparr>\<rparr>"
  let ?a = "\<lparr>ans_agent = ag, ans_message =
                  \<lparr>msg_knowledge_graph = kg, msg_results = rs1 @ bad # rs2\<rparr>\<rparr>"
  let ?rn = "\<lambda>answers :: answer list.
       map (\<lambda>answer. kg_nodes (msg_knowledge_graph (ans_message answer))) answers"
  have rn: "?rn (as1 @ ?a # as2) = ?rn (as1 @ ?a' # as2)" by simp
  from s obtain canon where canon: "makeCanonicalNodeMapping (?rn (as1 @ ?a' # as2)) = Some canon"
    by (cases "makeCanonicalNodeMapping (?rn (as1 @ ?a' # as2))")
      (simp_all add: creativeAnswersToSummary_def Let_def)
  from s canon obtain css' where
    css': "creativeAnswersToCondensedSummaries env canon maxHops (as1 @ ?a' # as2) = Some css'"
    by (cases "creativeAnswersToCondensedSummaries env canon maxHops (as1 @ ?a' # as2)")
      (simp_all add: creativeAnswersToSummary_def Let_def)
  from s canon css' have cs: "condensedSummariesToSummary env qid css' = Some s"
    by (simp add: creativeAnswersToSummary_def Let_def)
  from condensed_insert [OF unbindable_empty [OF bad] css'] obtain css where
    css: "creativeAnswersToCondensedSummaries env canon maxHops (as1 @ ?a # as2) = Some css"
    and agree: "list_all2 condensedAgree css css'"
    by blast
  from summary_agree [OF agree cs u] have "condensedSummariesToSummary env qid css = Some s" .
  with canon css show "creativeAnswersToSummary env maxHops qid (as1 @ ?a # as2) = Some s"
    unfolding creativeAnswersToSummary_def Let_def rn by simp
qed

theorem unbindable_result_skipped_witness:
  "unbindable unboundResult demoGraph \<and>
   (\<exists>s. creativeAnswersToSummary demoEnv 3 ''Q1'' [answerOf demoGraph [demoResult]] = Some s \<and>
        (\<forall>r \<in> set (s_results s). r_subject r \<noteq> JStr ''undefined'') \<and>
        trapiResultToSummaryFragment demoEnv [] 3 unboundResult demoGraph = Some emptySummaryFragment \<and>
        creativeAnswersToSummary demoEnv 3 ''Q1'' [answerOf demoGraph [demoResult, unboundResult]] = Some s)"
proof -
  have b: "unbindable unboundResult demoGraph" by code_simp
  have run: "map_option (map r_subject \<circ> s_results)
      (creativeAnswersToSummary demoEnv 3 ''Q1'' [answerOf demoGraph [demoResult]]) =
      Some [JStr ''CHEBI:1'']"
    by code_simp
  then obtain s where
    s: "creativeAnswersToSummary demoEnv 3 ''Q1'' [answerOf demoGraph [demoResult]] = Some s"
    and p: "map r_subject (s_results s) = [JStr ''CHEBI:1'']"
    by auto
  have u: "\<forall>r \<in> set (s_results s). r_subject r \<noteq> JStr ''undefined''"
  proof
    fix r assume "r \<in> set (s_results s)"
    then have "r_subject r \<in> set (map r_subject (s_results s))" by simp
    then show "r_subject r \<noteq> JStr ''undefined''" unfolding p by simp
  qed
  from unbindable_result_skipped [of unboundResult demoGraph demoEnv 3 "''Q1''" "[]" "''ara-a''"
      "[demoResult]" "[]" "[]" s] b s u
  show ?thesis by (simp add: answerOf_def)
qed

text \<open>
  The claim as it is written fails.  A result without \<open>sn\<close> whose edge binding is not an
  edge of the knowledge graph makes the summarizer throw, where the message without it is
  summarized; and next to a drug called \<open>undefined\<close>, a skipped result turns the score of
  the drug into \<open>NaN\<close>.
\<close>

theorem missing_binding_poisons_summary:
  "getBindingId (node_bindings danglingResult) subjectKey = Some JFalse \<and>
   trapiResultToSummaryFragment demoEnv [] 3 danglingResult demoGraph = None \<and>
   creativeAnswersToSummary demoEnv 3 ''Q1'' [answerOf demoGraph [demoResult, danglingResult]] = None \<and>
   map_option (map r_score \<circ> s_results)
     (creativeAnswersToSummary demoEnv 3 ''Q1'' [answerOf demoGraph [demoResult]]) = Some [Num (1 / 2)] \<and>
   map_option (map r_score \<circ> s_results)
     (creativeAnswersToSummary demoEnv 3 ''Q1'' [answerOf undefinedGraph [undefinedResult, unboundResult]]) = Some [NaN] \<and>
   map_option (map r_score \<circ> s_results)
     (creativeAnswersToSummary demoEnv 3 ''Q1'' [answerOf undefinedGraph [undefinedResult]]) = Some [Num (1 / 2)]"
  by code_simp

section \<open>The order of the agents\<close>






















end
